theory Spec2Isabelle
  imports Main "HOL-Library.AList"
begin

section \<open>JavaScript values\<close>

text \<open>
  The store keeps schema-free records, so the model needs the run-time values of the
  language. The program does no arithmetic: of a number it only asks \<open>typeof\<close>, uses it
  as a \<open>Map\<close> key and writes it as JSON. The finite numbers of the model are the integers
  (the identifiers of the specification are strings or integers); a number with a
  fraction and the negative zero have no value in the model. An integer stands for a
  number of the program when a double holds it exactly (\<open>double_of_int\<close> below). The three
  non-finite numbers, which \<open>typeof\<close> also reports as \<open>number\<close> and which JSON writes as
  \<open>null\<close>, are constructors of their own.

  An object is the list of its own properties, each key once, in the order in which the
  properties were created. The engine lists the keys that are array indices (such as
  \<open>"1"\<close>) before the others, whenever they were created; the model does not. What is said
  below of a record is therefore said of its fields and their values, not of their order.
\<close>

datatype jsnum = Fin int | NaN | PosInf | NegInf

datatype jsval =
    JUndefined
  | JNull
  | JBool bool
  | JNum jsnum
  | JStr string
  | JArr "jsval list"
  | JObj "(string \<times> jsval) list"

type_synonym obj = "(string \<times> jsval) list"

fun typeof :: "jsval \<Rightarrow> string" where
  "typeof JUndefined = ''undefined''"
| "typeof JNull = ''object''"
| "typeof (JBool b) = ''boolean''"
| "typeof (JNum n) = ''number''"
| "typeof (JStr s) = ''string''"
| "typeof (JArr vs) = ''object''"
| "typeof (JObj fs) = ''object''"

text \<open>\<open>!v\<close> is true exactly for the falsy values.\<close>

fun truthy :: "jsval \<Rightarrow> bool" where
  "truthy JUndefined = False"
| "truthy JNull = False"
| "truthy (JBool b) = b"
| "truthy (JNum n) = (n \<noteq> Fin 0 \<and> n \<noteq> NaN)"
| "truthy (JStr s) = (s \<noteq> [])"
| "truthy (JArr vs) = True"
| "truthy (JObj fs) = True"

text \<open>
  \<open>o[k]\<close> on an object: the value of the property, \<open>undefined\<close> when the object has
  none of that name.
\<close>

definition obj_get :: "obj \<Rightarrow> string \<Rightarrow> jsval" where
  "obj_get fs k = (case map_of fs k of None \<Rightarrow> JUndefined | Some v \<Rightarrow> v)"

text \<open>
  The rest pattern \<open>const {k1, k2, ...rest} = o\<close>: the own properties of \<open>o\<close> other
  than the named ones, in their order.
\<close>

definition obj_rest :: "string list \<Rightarrow> obj \<Rightarrow> obj" where
  "obj_rest ks fs = filter (\<lambda>kv. fst kv \<notin> set ks) fs"

text \<open>
  The object literal \<open>{k1: v1, ..., ...src}\<close>: the properties written first, then every
  property of \<open>src\<close> assigned in order, replacing the value of a key that is already there
  and adding any other key at the end.
\<close>

definition obj_spread :: "obj \<Rightarrow> obj \<Rightarrow> obj" where
  "obj_spread base src = foldl (\<lambda>acc kv. AList.update (fst kv) (snd kv) acc) base src"

text \<open>
  \<open>item[prop]\<close> for an item that is neither \<open>null\<close> nor \<open>undefined\<close>. The program reads
  the properties \<open>_id\<close> and \<open>_collection\<close> only, which no primitive, string or array has.
\<close>

fun get_prop :: "jsval \<Rightarrow> string \<Rightarrow> jsval" where
  "get_prop (JObj fs) k = obj_get fs k"
| "get_prop v k = JUndefined"

section \<open>The ECMAScript Map\<close>

text \<open>
  A \<open>Map\<close> keeps its entries in insertion order; \<open>set\<close> on a key that is present replaces
  the value where it stands. Keys are compared by SameValueZero, which on the strings and
  numbers of this model is equality.
\<close>

type_synonym ('k, 'v) jsmap = "('k \<times> 'v) list"

definition Map_has :: "('k, 'v) jsmap \<Rightarrow> 'k \<Rightarrow> bool" where
  "Map_has m k = (map_of m k \<noteq> None)"

definition Map_get :: "('k, 'v) jsmap \<Rightarrow> 'k \<Rightarrow> 'v option" where
  "Map_get m k = map_of m k"

definition Map_set :: "('k, 'v) jsmap \<Rightarrow> 'k \<Rightarrow> 'v \<Rightarrow> ('k, 'v) jsmap" where
  "Map_set m k v = AList.update k v m"

definition Map_values :: "('k, 'v) jsmap \<Rightarrow> 'v list" where
  "Map_values m = map snd m"

definition Map_keys :: "('k, 'v) jsmap \<Rightarrow> 'k list" where
  "Map_keys m = map fst m"

definition Map_size :: "('k, 'v) jsmap \<Rightarrow> nat" where
  "Map_size m = length m"

section \<open>Errors\<close>

text \<open>
  Every \<open>throw\<close> of the program is a value. The program throws plain \<open>Error\<close>s whose
  messages begin with \<open>InsertionError:\<close> or \<open>InvalidItemError:\<close>; the argument of the
  constructor says which of the messages it is. \<open>SchemaError\<close> is the error of the
  \<open>instanceof Array\<close> checks, \<open>TypeError\<close> the engine's own error for a property read on
  \<open>null\<close> or \<open>undefined\<close>, \<open>SyntaxError\<close> that of \<open>JSON.parse\<close>, \<open>IOError\<close> that of the
  file system.
\<close>

datatype insertion_reason = IdNotNumberOrString | IdAlreadyExists

datatype invalid_reason = EmptyId | EmptyCollectionName | MissingOrWrongType

datatype io_reason = ENOENT | EEXIST | EISDIR

datatype error =
    InsertionError insertion_reason
  | InvalidItemError invalid_reason
  | SchemaError
  | TypeError
  | SyntaxError
  | IOError io_reason

section \<open>itemHasProp\<close>

definition itemHasProp :: "jsval \<Rightarrow> string \<Rightarrow> string \<Rightarrow> bool" where
  "itemHasProp item prop type =
     (let val = get_prop item prop in
      if val = JUndefined then False
      else let propType = typeof val in
        if propType \<noteq> type then False
        else True)"

section \<open>Collection\<close>

text \<open>
  The fields \<open>name\<close> and \<open>_items\<close> of the class (\<open>p_items\<close> here, as are the other names
  that begin with an underscore in the source). The third field, \<open>_onUpdate\<close>, holds the
  function the constructor was given; the only constructor call of the program passes
  \<open>this.persist\<close> of the store, so the field is not stored and \<open>insert\<close> below calls
  \<open>persist\<close>.
\<close>

record collection =
  name :: string
  p_items :: "(jsval, obj) jsmap"

definition new_Collection :: "string \<Rightarrow> collection" where
  "new_Collection n = \<lparr>name = n, p_items = []\<rparr>"

definition p_validateInsert :: "collection \<Rightarrow> obj \<Rightarrow> error + unit" where
  "p_validateInsert c item =
     (let idIsValid = (itemHasProp (JObj item) ''_id'' ''string''
                       \<or> itemHasProp (JObj item) ''_id'' ''number'') in
      if \<not> idIsValid then Inl (InsertionError IdNotNumberOrString)
      else if Map_has (p_items c) (obj_get item ''_id'') then Inl (InsertionError IdAlreadyExists)
      else Inr ())"

text \<open>
  A method that mutates the collection returns its outcome together with the collection
  as the call leaves it, also when it throws. \<open>ident\<close> is the parameter \<open>id\<close> of
  the source (\<open>JUndefined\<close> when it is omitted) and \<open>uuid\<close> the string \<open>randomUUID()\<close>
  returns when it is called.
\<close>

definition p_putInMap :: "collection \<Rightarrow> obj \<Rightarrow> jsval \<Rightarrow> string \<Rightarrow> (error + unit) \<times> collection" where
  "p_putInMap c object ident uuid =
     (let id1 = (if ident = JUndefined then JStr uuid else ident);
          item = obj_spread [(''_id'', id1)] object in
      case p_validateInsert c item of
        Inl e \<Rightarrow> (Inl e, c)
      | Inr u \<Rightarrow> (Inr (), c\<lparr>p_items := Map_set (p_items c) (obj_get item ''_id'') item\<rparr>))"

definition insertSync :: "collection \<Rightarrow> obj \<Rightarrow> jsval \<Rightarrow> string \<Rightarrow> (error + unit) \<times> collection" where
  "insertSync c object ident uuid = p_putInMap c object ident uuid"

definition get :: "collection \<Rightarrow> jsval \<Rightarrow> obj option" where
  "get c ident = (let item = Map_get (p_items c) ident in
               if item = None then None else item)"

definition p_insertNoSave :: "collection \<Rightarrow> obj \<Rightarrow> (error + unit) \<times> collection" where
  "p_insertNoSave c item =
     (case p_validateInsert c item of
        Inl e \<Rightarrow> (Inl e, c)
      | Inr u \<Rightarrow> (Inr (), c\<lparr>p_items := Map_set (p_items c) (obj_get item ''_id'') item\<rparr>))"

definition all :: "collection \<Rightarrow> obj list" where
  "all c = Map_values (p_items c)"

definition count :: "collection \<Rightarrow> nat" where
  "count c = Map_size (p_items c)"

section \<open>JSON\<close>

text \<open>
  A JSON text is modelled by its syntax tree: what \<open>JSON.stringify\<close> writes and
  \<open>JSON.parse\<close> reads back is the tree, whatever the layout of the characters. A number
  of the text is the integer its digits denote (a text with a fraction or an exponent has
  no tree in the model). The content of a file is such a text, or characters that
  \<open>JSON.parse\<close> rejects.
\<close>

datatype json =
    JsNull
  | JsBool bool
  | JsNum int
  | JsStr string
  | JsArr "json list"
  | JsObj "(string \<times> json) list"

datatype filetext = Json json | NotJson string

text \<open>
  \<open>JSON.stringify\<close>: \<open>undefined\<close> has no text (the result \<open>None\<close>); a property whose
  value has none is left out of its object, an array element that has none is written
  \<open>null\<close>, and so is a number that is not finite.
\<close>

fun to_json :: "jsval \<Rightarrow> json option" where
  "to_json JUndefined = None"
| "to_json JNull = Some JsNull"
| "to_json (JBool b) = Some (JsBool b)"
| "to_json (JNum n) = Some (case n of Fin i \<Rightarrow> JsNum i | _ \<Rightarrow> JsNull)"
| "to_json (JStr s) = Some (JsStr s)"
| "to_json (JArr vs) =
     Some (JsArr (map (\<lambda>v. case to_json v of None \<Rightarrow> JsNull | Some j \<Rightarrow> j) vs))"
| "to_json (JObj fs) =
     Some (JsObj (concat (map (\<lambda>kv. case to_json (snd kv) of
                                       None \<Rightarrow> []
                                     | Some j \<Rightarrow> [(fst kv, j)]) fs)))"

definition JSON_stringify :: "jsval \<Rightarrow> filetext option" where
  "JSON_stringify v = map_option Json (to_json v)"

text \<open>The text of an array, which \<open>JSON.stringify\<close> always has (\<open>JSON_stringify_JArr\<close>).\<close>

definition stringify_array :: "jsval list \<Rightarrow> filetext" where
  "stringify_array vs =
     Json (JsArr (map (\<lambda>v. case to_json v of None \<Rightarrow> JsNull | Some j \<Rightarrow> j) vs))"

text \<open>
  A number of a JSON text is read as the nearest double, a tie going to the even
  significand, and as an infinity beyond the largest double. A double has 53 bits of
  significand: an integer below \<open>2 ^ 53\<close> in absolute value is a double; above, the doubles
  are the multiples of \<open>ulp a\<close>, the power of two that leaves 53 bits. So
  \<open>9007199254740993\<close> is read as \<open>9007199254740992\<close>.
\<close>

function ulp :: "nat \<Rightarrow> nat" where
  "ulp a = (if a < 2 ^ 53 then 1 else 2 * ulp (a div 2))"
  by pat_completeness auto
termination
  by (relation "measure (\<lambda>a. a)") auto

declare ulp.simps [simp del]

definition double_of_int :: "int \<Rightarrow> jsnum" where
  "double_of_int i =
     (let a = nat \<bar>i\<bar> in
      if a < 2 ^ 53 then Fin i
      else let u = ulp a; q = a div u; r = a mod u;
               q1 = (if u < 2 * r \<or> (2 * r = u \<and> odd q) then q + 1 else q);
               m = q1 * u
           in if 2 ^ 1024 \<le> m then (if i < 0 then NegInf else PosInf)
              else Fin (if i < 0 then - int m else int m))"

text \<open>
  \<open>JSON.parse\<close>: the members of an object are assigned in the order of the text, a
  repeated key keeping its place and taking the later value.
\<close>

fun from_json :: "json \<Rightarrow> jsval" where
  "from_json JsNull = JNull"
| "from_json (JsBool b) = JBool b"
| "from_json (JsNum i) = JNum (double_of_int i)"
| "from_json (JsStr s) = JStr s"
| "from_json (JsArr js) = JArr (map from_json js)"
| "from_json (JsObj fs) = JObj (obj_spread [] (map (\<lambda>kv. (fst kv, from_json (snd kv))) fs))"

fun JSON_parse :: "filetext \<Rightarrow> error + jsval" where
  "JSON_parse (Json j) = Inr (from_json j)"
| "JSON_parse (NotJson s) = Inl SyntaxError"

section \<open>The file system\<close>

text \<open>
  The calls of Node's \<open>fs\<close> module the program makes, on a file system that is a set of
  directories and a map from paths to file contents. \<open>dirname\<close> of Node's \<open>path\<close> module
  is a parameter \<open>dn\<close> of every function that needs it. \<open>mkdirSync\<close> is the call without
  the \<open>recursive\<close> option: it fails when the parent of the new directory is missing.
\<close>

record fs =
  dirs :: "string set"
  files :: "string \<rightharpoonup> filetext"

definition existsSync :: "fs \<Rightarrow> string \<Rightarrow> bool" where
  "existsSync f p = (p \<in> dirs f \<or> files f p \<noteq> None)"

definition readFileSync :: "fs \<Rightarrow> string \<Rightarrow> error + filetext" where
  "readFileSync f p =
     (case files f p of
        Some t \<Rightarrow> Inr t
      | None \<Rightarrow> if p \<in> dirs f then Inl (IOError EISDIR) else Inl (IOError ENOENT))"

definition mkdirSync :: "(string \<Rightarrow> string) \<Rightarrow> fs \<Rightarrow> string \<Rightarrow> error + fs" where
  "mkdirSync dn f p =
     (if existsSync f p then Inl (IOError EEXIST)
      else if dn p \<notin> dirs f then Inl (IOError ENOENT)
      else Inr (f\<lparr>dirs := Set.insert p (dirs f)\<rparr>))"

definition writeFile :: "(string \<Rightarrow> string) \<Rightarrow> fs \<Rightarrow> string \<Rightarrow> filetext \<Rightarrow> error + fs" where
  "writeFile dn f p t =
     (if p \<in> dirs f then Inl (IOError EISDIR)
      else if dn p \<notin> dirs f then Inl (IOError ENOENT)
      else Inr (f\<lparr>files := (files f)(p \<mapsto> t)\<rparr>))"

section \<open>Store\<close>

record store =
  fPath :: string
  p_collections :: "(string, collection) jsmap"

text \<open>
  \<open>collections\<close> returns the collection and the store as the call leaves it. In the
  source the collection is an object shared with the registry, so what a caller does to
  it is seen through the store; here the caller writes the collection back with
  \<open>put_collection\<close>.
\<close>

definition collections :: "store \<Rightarrow> string \<Rightarrow> collection \<times> store" where
  "collections s collection =
     (case Map_get (p_collections s) collection of
        None \<Rightarrow> (let ref = new_Collection collection in
                 (ref, s\<lparr>p_collections := Map_set (p_collections s) collection ref\<rparr>))
      | Some ref \<Rightarrow> (ref, s))"

definition put_collection :: "store \<Rightarrow> string \<Rightarrow> collection \<Rightarrow> store" where
  "put_collection s collection ref = s\<lparr>p_collections := Map_set (p_collections s) collection ref\<rparr>"

definition hasCollection :: "store \<Rightarrow> string \<Rightarrow> bool" where
  "hasCollection s collection = Map_has (p_collections s) collection"

definition collNames :: "store \<Rightarrow> string list" where
  "collNames s = Map_keys (p_collections s)"

text \<open>The arrow function of \<open>serialize\<close>, for an item of the collection named \<open>cname\<close>.\<close>

definition serializedItem :: "string \<Rightarrow> obj \<Rightarrow> obj" where
  "serializedItem cname item =
     (let u_id = obj_get item ''_id''; rest = obj_rest [''_id''] item in
      obj_spread [(''_id'', u_id), (''_collection'', JStr cname)] rest)"

definition serializedItems :: "store \<Rightarrow> obj list" where
  "serializedItems s =
     foldl (\<lambda>items collection. items @ map (serializedItem (name collection)) (all collection))
       [] (Map_values (p_collections s))"

definition serialize :: "store \<Rightarrow> filetext" where
  "serialize s = stringify_array (map JObj (serializedItems s))"

text \<open>
  \<open>persist\<close> is an ordinary method, so its \<open>this\<close> is the object it is called on: the
  store in \<open>store.persist()\<close>, but the collection in \<open>this._onUpdate()\<close> of
  \<open>Collection.insert\<close>, since the store hands \<open>this.persist\<close> to the collection unbound. A
  collection has no property \<open>fPath\<close>.
\<close>

datatype receiver = ThisStore store | ThisCollection collection

fun this_fPath :: "receiver \<Rightarrow> jsval" where
  "this_fPath (ThisStore s) = JStr (fPath s)"
| "this_fPath (ThisCollection c) = JUndefined"

text \<open>
  A call that throws leaves the file system as it was. Past the first guard \<open>this\<close> is a
  store (\<open>dirname(undefined)\<close> would throw).
\<close>

definition persist :: "(string \<Rightarrow> string) \<Rightarrow> receiver \<Rightarrow> fs \<Rightarrow> (error + unit) \<times> fs" where
  "persist dn this f =
     (if \<not> truthy (this_fPath this) then (Inr (), f)
      else case this of
        ThisCollection c \<Rightarrow> (Inl TypeError, f)
      | ThisStore s \<Rightarrow>
          (let folderName = dn (fPath s) in
           case (if \<not> existsSync f folderName then mkdirSync dn f folderName else Inr f) of
             Inl e \<Rightarrow> (Inl e, f)
           | Inr f1 \<Rightarrow>
               (case writeFile dn f1 (fPath s) (serialize s) of
                  Inl e \<Rightarrow> (Inl e, f1)
                | Inr f2 \<Rightarrow> (Inr (), f2))))"

text \<open>
  \<open>Collection.insert\<close>: the insertion, then the awaited call of \<open>_onUpdate\<close>, which is
  \<open>persist\<close> with the collection as \<open>this\<close>.
\<close>

definition insert ::
  "(string \<Rightarrow> string) \<Rightarrow> collection \<Rightarrow> obj \<Rightarrow> jsval \<Rightarrow> string \<Rightarrow> fs
     \<Rightarrow> ((error + unit) \<times> collection) \<times> fs" where
  "insert dn c object ident uuid f =
     (case p_putInMap c object ident uuid of
        (Inl e, c1) \<Rightarrow> ((Inl e, c1), f)
      | (Inr u, c1) \<Rightarrow> (case persist dn (ThisCollection c1) f of (r, f1) \<Rightarrow> ((r, c1), f1)))"

section \<open>Validation and rebuilding\<close>

definition validateSerializedItem :: "jsval \<Rightarrow> error + unit" where
  "validateSerializedItem item =
     (if item = JUndefined \<or> item = JNull then Inl TypeError
      else if get_prop item ''_id'' = JStr '''' then Inl (InvalidItemError EmptyId)
      else if get_prop item ''_collection'' = JStr '''' then Inl (InvalidItemError EmptyCollectionName)
      else let isValid = ((itemHasProp item ''_id'' ''string'' \<or> itemHasProp item ''_id'' ''number'')
                          \<and> itemHasProp item ''_collection'' ''string'') in
        if \<not> isValid then Inl (InvalidItemError MissingOrWrongType)
        else Inr ())"

text \<open>
  The callback of the two \<open>forEach\<close> loops, which \<open>initStore\<close> and \<open>storeFromObjects\<close>
  spell out word for word. An item that passes the validation is an object whose
  \<open>_collection\<close> is a string (\<open>validated_item\<close>), so the last case is never taken.
\<close>

definition rebuild_item :: "store \<Rightarrow> jsval \<Rightarrow> error + store" where
  "rebuild_item s item =
     (case validateSerializedItem item of
        Inl e \<Rightarrow> Inl e
      | Inr u \<Rightarrow>
          (case (item, get_prop item ''_collection'') of
             (JObj props, JStr cname) \<Rightarrow>
               (case collections s cname of
                  (collection, s1) \<Rightarrow>
                    (let u_id = obj_get props ''_id'';
                         data = obj_rest [''_id'', ''_collection''] props in
                     case p_insertNoSave collection (obj_spread [(''_id'', u_id)] data) of
                       (Inl e, c1) \<Rightarrow> Inl e
                     | (Inr u1, c1) \<Rightarrow> Inr (put_collection s1 cname c1)))
           | _ \<Rightarrow> Inl TypeError))"

fun forEach_rebuild :: "store \<Rightarrow> jsval list \<Rightarrow> error + store" where
  "forEach_rebuild s [] = Inr s"
| "forEach_rebuild s (item # rest) =
     (case rebuild_item s item of
        Inl e \<Rightarrow> Inl e
      | Inr s1 \<Rightarrow> forEach_rebuild s1 rest)"

text \<open>
  \<open>initStore\<close> runs on the store under construction and only reads the file system; an
  exception leaves no store.
\<close>

definition initStore :: "(string \<Rightarrow> string) \<Rightarrow> fs \<Rightarrow> store \<Rightarrow> error + store" where
  "initStore dn f s =
     (if \<not> truthy (JStr (fPath s)) then Inr s
      else if \<not> existsSync f (dn (fPath s)) then Inr s
      else case readFileSync f (fPath s) of
        Inl e \<Rightarrow> Inl e
      | Inr t \<Rightarrow>
          (case JSON_parse t of
             Inl e \<Rightarrow> Inl e
           | Inr fileData \<Rightarrow>
               (case fileData of
                  JArr items \<Rightarrow> forEach_rebuild s items
                | _ \<Rightarrow> Inl SchemaError)))"

definition new_Store :: "(string \<Rightarrow> string) \<Rightarrow> fs \<Rightarrow> string \<Rightarrow> error + store" where
  "new_Store dn f path = initStore dn f \<lparr>fPath = path, p_collections = []\<rparr>"

definition storeFromObjects :: "(string \<Rightarrow> string) \<Rightarrow> fs \<Rightarrow> jsval \<Rightarrow> string \<Rightarrow> error + store" where
  "storeFromObjects dn f storedData storePath =
     (case new_Store dn f storePath of
        Inl e \<Rightarrow> Inl e
      | Inr s \<Rightarrow>
          (case storedData of
             JArr items \<Rightarrow> forEach_rebuild s items
           | _ \<Rightarrow> Inl SchemaError))"

definition storeFromFile :: "(string \<Rightarrow> string) \<Rightarrow> fs \<Rightarrow> string \<Rightarrow> error + store" where
  "storeFromFile dn f storePath =
     (case readFileSync f storePath of
        Inl e \<Rightarrow> Inl e
      | Inr t \<Rightarrow>
          (case JSON_parse t of
             Inl e \<Rightarrow> Inl e
           | Inr storedData \<Rightarrow> storeFromObjects dn f storedData storePath))"

section \<open>Calls on a collection\<close>

text \<open>
  The record \<open>_putInMap\<close> builds from its arguments: \<open>{ _id: id, ...object }\<close>, after the
  default for an omitted \<open>id\<close> (\<open>p_putInMap_new_item\<close>).
\<close>

definition new_item :: "obj \<Rightarrow> jsval \<Rightarrow> string \<Rightarrow> obj" where
  "new_item object ident uuid =
     obj_spread [(''_id'', if ident = JUndefined then JStr uuid else ident)] object"

text \<open>
  A caller's history with one collection is a list of calls of its three inserting
  methods; a call that throws is caught and the history goes on.
\<close>

datatype call =
    Insert obj jsval string
  | InsertSync obj jsval string
  | InsertNoSave obj

fun record_of :: "call \<Rightarrow> obj" where
  "record_of (Insert object ident uuid) = new_item object ident uuid"
| "record_of (InsertSync object ident uuid) = new_item object ident uuid"
| "record_of (InsertNoSave item) = item"

fun call_on ::
  "(string \<Rightarrow> string) \<Rightarrow> call \<Rightarrow> collection \<times> fs \<Rightarrow> ((error + unit) \<times> collection) \<times> fs" where
  "call_on dn (Insert object ident uuid) (c, f) = insert dn c object ident uuid f"
| "call_on dn (InsertSync object ident uuid) (c, f) = (insertSync c object ident uuid, f)"
| "call_on dn (InsertNoSave item) (c, f) = (p_insertNoSave c item, f)"

fun run_calls :: "(string \<Rightarrow> string) \<Rightarrow> collection \<times> fs \<Rightarrow> call list \<Rightarrow> collection \<times> fs" where
  "run_calls dn cf [] = cf"
| "run_calls dn cf (x # xs) =
     (case call_on dn x cf of ((r, c1), f1) \<Rightarrow> run_calls dn (c1, f1) xs)"

definition item_id :: "obj \<Rightarrow> jsval" where
  "item_id item = obj_get item ''_id''"

text \<open>
  What the inserting methods keep true of a collection: the keys of the \<open>Map\<close> are
  distinct, and every record is stored under its own \<open>_id\<close>.
\<close>

definition ids_agree :: "collection \<Rightarrow> bool" where
  "ids_agree c = (distinct (map fst (p_items c)) \<and> list_all (\<lambda>kr. item_id (snd kr) = fst kr) (p_items c))"

section \<open>Rebuilding, step by step\<close>

text \<open>
  What \<open>collections\<close> hands to the callback of the rebuilding loops, and the record the
  callback stores for a tagged record with the properties \<open>props\<close>.
\<close>

definition lookup_or_new :: "store \<Rightarrow> string \<Rightarrow> collection" where
  "lookup_or_new s n = (case map_of (p_collections s) n of None \<Rightarrow> new_Collection n | Some c \<Rightarrow> c)"

definition rebuilt_record :: "obj \<Rightarrow> obj" where
  "rebuilt_record props =
     obj_spread [(''_id'', obj_get props ''_id'')] (obj_rest [''_id'', ''_collection''] props)"

text \<open>
  The record \<open>r\<close> is stored under the identifier \<open>k\<close> in the collection \<open>n\<close> of the store;
  the collection \<open>n\<close> has some record under \<open>k\<close>; and the same for the pair \<open>tag item\<close> of
  the \<open>_collection\<close> and \<open>_id\<close> of a tagged record.
\<close>

definition stored :: "store \<Rightarrow> string \<Rightarrow> jsval \<Rightarrow> obj \<Rightarrow> bool" where
  "stored s n k r =
     (case Map_get (p_collections s) n of None \<Rightarrow> False | Some c \<Rightarrow> get c k = Some r)"

definition has_record :: "store \<Rightarrow> string \<Rightarrow> jsval \<Rightarrow> bool" where
  "has_record s n k =
     (case Map_get (p_collections s) n of None \<Rightarrow> False | Some c \<Rightarrow> Map_has (p_items c) k)"

definition tag :: "jsval \<Rightarrow> jsval \<times> jsval" where
  "tag item = (get_prop item ''_collection'', get_prop item ''_id'')"

fun has_tag :: "store \<Rightarrow> jsval \<times> jsval \<Rightarrow> bool" where
  "has_tag s (JStr n, k) = has_record s n k"
| "has_tag s (v, k) = False"

definition valid_item :: "jsval \<Rightarrow> bool" where
  "valid_item item = (validateSerializedItem item = Inr ())"


section \<open>The round trip\<close>

text \<open>
  The values that \<open>JSON.parse(JSON.stringify(v))\<close> gives back as they are: no
  \<open>undefined\<close> and no number that is not finite anywhere in them, every number one that a
  double holds, and objects whose keys are distinct (as the keys of an object are).
\<close>

fun json_safe :: "jsval \<Rightarrow> bool" where
  "json_safe JUndefined = False"
| "json_safe JNull = True"
| "json_safe (JBool b) = True"
| "json_safe (JNum n) = (case n of Fin i \<Rightarrow> double_of_int i = Fin i | _ \<Rightarrow> False)"
| "json_safe (JStr s) = True"
| "json_safe (JArr vs) = list_all json_safe vs"
| "json_safe (JObj fs) = (distinct (map fst fs) \<and> list_all (\<lambda>kv. json_safe (snd kv)) fs)"

text \<open>\<open>storeFromObjects\<close> on what \<open>JSON.parse\<close> makes of \<open>serialize()\<close>, with no path.\<close>

definition roundtrip :: "(string \<Rightarrow> string) \<Rightarrow> fs \<Rightarrow> store \<Rightarrow> error + store" where
  "roundtrip dn f s =
     (case JSON_parse (serialize s) of
        Inl e \<Rightarrow> Inl e
      | Inr storedData \<Rightarrow> storeFromObjects dn f storedData '''')"

text \<open>
  The stores that the round trip gives back. An entry of a collection's map is a
  record stored under its own \<open>_id\<close>, which is a string or a number and not the empty
  string; the record has no field \<open>_collection\<close> and is made of JSON values. An entry of the
  registry is a collection registered under its own name, which is not empty; it has at
  least one record, and no identifier twice. The registry has no name twice.
\<close>

definition record_ok :: "jsval \<times> obj \<Rightarrow> bool" where
  "record_ok kr =
     (item_id (snd kr) = fst kr \<and> fst kr \<noteq> JStr ''''
      \<and> (typeof (fst kr) = ''string'' \<or> typeof (fst kr) = ''number'')
      \<and> map_of (snd kr) ''_collection'' = None
      \<and> json_safe (JObj (snd kr)))"

definition collection_ok :: "string \<times> collection \<Rightarrow> bool" where
  "collection_ok nc =
     (name (snd nc) = fst nc \<and> fst nc \<noteq> '''' \<and> p_items (snd nc) \<noteq> []
      \<and> distinct (map fst (p_items (snd nc))) \<and> list_all record_ok (p_items (snd nc)))"

definition store_ok :: "store \<Rightarrow> bool" where
  "store_ok s = (distinct (map fst (p_collections s)) \<and> list_all collection_ok (p_collections s))"

text \<open>
  The list that stands in the model for the record the round trip gives back for the
  record \<open>r\<close>. It has the fields of \<open>r\<close> with their values (\<open>normal_record_fields\<close>); its order
  is that of the model, and nothing is claimed of it.
\<close>

definition normal_record :: "obj \<Rightarrow> obj" where
  "normal_record r = (''_id'', item_id r) # obj_rest [''_id''] r"

definition normal_collection :: "string \<times> collection \<Rightarrow> string \<times> collection" where
  "normal_collection nc =
     (fst nc, \<lparr>name = fst nc,
               p_items = map (\<lambda>kr. (fst kr, normal_record (snd kr))) (p_items (snd nc))\<rparr>)"

text \<open>
  Two collections are the same for the round trip: the same name, the same number of
  records, the same identifiers in the same order, and under each identifier records with
  the same fields and the same values.
\<close>

definition same_collection :: "collection \<Rightarrow> collection \<Rightarrow> bool" where
  "same_collection c c1 =
     (name c1 = name c \<and> count c1 = count c
      \<and> Map_keys (p_items c1) = Map_keys (p_items c)
      \<and> list_all2 (\<lambda>r r1. map_of r1 = map_of r) (all c) (all c1))"

section \<open>What the loading loop builds\<close>








section \<open>The inserting methods\<close>

lemma persist_this_collection: "persist dn (ThisCollection c) f = (Inr (), f)"
  by (simp add: persist_def)

lemma p_putInMap_new_item:
  "p_putInMap c object ident uuid = p_insertNoSave c (new_item object ident uuid)"
  by (simp add: p_putInMap_def p_insertNoSave_def new_item_def Let_def)

lemma insert_eq:
  "insert dn c object ident uuid f = (p_insertNoSave c (new_item object ident uuid), f)"
  by (simp add: insert_def p_putInMap_new_item persist_this_collection split: prod.splits sum.splits)

lemma call_on_eq: "call_on dn x (c, f) = (p_insertNoSave c (record_of x), f)"
  by (cases x) (simp_all add: insert_eq insertSync_def p_putInMap_new_item)

lemma validate_cases:
  "p_validateInsert c item =
     (if typeof (item_id item) \<noteq> ''string'' \<and> typeof (item_id item) \<noteq> ''number''
      then Inl (InsertionError IdNotNumberOrString)
      else if Map_has (p_items c) (item_id item) then Inl (InsertionError IdAlreadyExists)
      else Inr ())"
  by (cases "obj_get item ''_id''") (auto simp: p_validateInsert_def itemHasProp_def item_id_def Let_def)

lemma insertNoSave_cases:
  "p_insertNoSave c item =
     (if typeof (item_id item) \<noteq> ''string'' \<and> typeof (item_id item) \<noteq> ''number''
      then (Inl (InsertionError IdNotNumberOrString), c)
      else if Map_has (p_items c) (item_id item) then (Inl (InsertionError IdAlreadyExists), c)
      else (Inr (), c\<lparr>p_items := Map_set (p_items c) (item_id item) item\<rparr>))"
  by (simp add: p_insertNoSave_def validate_cases) (simp add: item_id_def)

lemma update_fresh: "k \<notin> fst ` set al \<Longrightarrow> AList.update k v al = al @ [(k, v)]"
  by (induction al) auto

lemma Map_has_iff: "Map_has m k \<longleftrightarrow> k \<in> fst ` set m"
  by (simp add: Map_has_def map_of_eq_None_iff)

lemma Map_set_fresh: "\<not> Map_has m k \<Longrightarrow> Map_set m k v = m @ [(k, v)]"
  by (simp add: Map_set_def Map_has_iff update_fresh)

lemma ids_agree_new: "ids_agree (new_Collection n)"
  by (simp add: ids_agree_def new_Collection_def)

lemma ids_agree_insertNoSave:
  assumes "ids_agree c" "p_insertNoSave c item = (r, c1)"
  shows "ids_agree c1"
  using assms
  by (auto simp: insertNoSave_cases ids_agree_def Map_set_fresh Map_has_iff split: if_splits)

lemma ids_agree_call:
  assumes "ids_agree c" "call_on dn x (c, f) = ((r, c1), f1)"
  shows "ids_agree c1"
  using assms by (auto simp: call_on_eq intro: ids_agree_insertNoSave)

lemma call_on_fs: "call_on dn x (c, f) = ((r, c1), f1) \<Longrightarrow> f1 = f"
  by (simp add: call_on_eq)

lemma ids_agree_run:
  "ids_agree c \<Longrightarrow> ids_agree (fst (run_calls dn (c, f) xs))"
proof (induction xs arbitrary: c f)
  case Nil
  then show ?case by simp
next
  case (Cons x xs)
  obtain r c1 f1 where step: "call_on dn x (c, f) = ((r, c1), f1)"
    by (metis prod.exhaust)
  have "ids_agree c1" using Cons.prems step by (rule ids_agree_call)
  then have "ids_agree (fst (run_calls dn (c1, f1) xs))" by (rule Cons.IH)
  then show ?case using step by simp
qed

lemma ids_agree_distinct: "ids_agree c \<Longrightarrow> distinct (map item_id (all c))"
proof -
  assume a: "ids_agree c"
  have "map item_id (all c) = map fst (p_items c)"
    using a by (auto simp: ids_agree_def all_def Map_values_def list_all_iff)
  then show ?thesis using a by (simp add: ids_agree_def)
qed

lemma get_eq: "get c i = map_of (p_items c) i"
  by (simp add: get_def Map_get_def Let_def)

lemma insertNoSave_keeps_get:
  assumes "get c i = Some r" "p_insertNoSave c item = (res, c1)"
  shows "get c1 i = Some r"
  using assms
  by (auto simp: insertNoSave_cases get_eq Map_set_def Map_has_def update_conv' split: if_splits)

lemma run_keeps_get:
  "get c i = Some r \<Longrightarrow> get (fst (run_calls dn (c, f) ys)) i = Some r"
proof (induction ys arbitrary: c f)
  case Nil
  then show ?case by simp
next
  case (Cons y ys)
  obtain res c1 f1 where step: "call_on dn y (c, f) = ((res, c1), f1)"
    by (metis prod.exhaust)
  then have "p_insertNoSave c (record_of y) = (res, c1)" by (simp add: call_on_eq)
  with Cons.prems have "get c1 i = Some r" by (rule insertNoSave_keeps_get)
  then have "get (fst (run_calls dn (c1, f1) ys)) i = Some r" by (rule Cons.IH)
  then show ?case using step by simp
qed

lemma insertNoSave_success_get:
  assumes "p_insertNoSave c item = (Inr (), c1)"
  shows "get c1 (item_id item) = Some item"
  using assms
  by (auto simp: insertNoSave_cases get_eq Map_set_def update_conv' split: if_splits)

lemma insertNoSave_present:
  assumes "get c (item_id item) = Some r"
  shows "\<exists>e. p_insertNoSave c item = (Inl (InsertionError e), c)"
  using assms by (auto simp: insertNoSave_cases get_eq Map_has_def)

lemma insertNoSave_present_typed:
  assumes "get c (item_id item) = Some r" "typeof (item_id item) = ''string'' \<or> typeof (item_id item) = ''number''"
  shows "p_insertNoSave c item = (Inl (InsertionError IdAlreadyExists), c)"
  using assms by (auto simp: insertNoSave_cases get_eq Map_has_def)

lemma map_of_obj_spread:
  "map_of (obj_spread base src) k =
     (case map_of (rev src) k of Some v \<Rightarrow> Some v | None \<Rightarrow> map_of base k)"
  unfolding obj_spread_def
  by (induction src arbitrary: base) (auto simp: update_conv' map_add_def split: option.splits)

lemma obj_get_spread_absent:
  "map_of src k = None \<Longrightarrow> obj_get (obj_spread base src) k = obj_get base k"
proof -
  assume "map_of src k = None"
  then have "k \<notin> fst ` set (rev src)" by (simp add: map_of_eq_None_iff)
  then have "map_of (rev src) k = None" by (simp add: map_of_eq_None_iff del: set_rev)
  then show ?thesis by (simp add: obj_get_def map_of_obj_spread)
qed

lemma item_id_new_item:
  "map_of object ''_id'' = None \<Longrightarrow>
     item_id (new_item object ident uuid) = (if ident = JUndefined then JStr uuid else ident)"
  by (simp add: item_id_def new_item_def obj_get_spread_absent) (simp add: obj_get_def)

lemma validate_obj_cases:
  "validateSerializedItem (JObj props) =
     (if obj_get props ''_id'' = JStr '''' then Inl (InvalidItemError EmptyId)
      else if obj_get props ''_collection'' = JStr '''' then Inl (InvalidItemError EmptyCollectionName)
      else if (typeof (obj_get props ''_id'') = ''string'' \<or> typeof (obj_get props ''_id'') = ''number'')
              \<and> typeof (obj_get props ''_collection'') = ''string''
           then Inr ()
           else Inl (InvalidItemError MissingOrWrongType))"
  by (cases "obj_get props ''_id''"; cases "obj_get props ''_collection''")
     (simp_all add: validateSerializedItem_def itemHasProp_def Let_def)

lemma double_small: "\<bar>i\<bar> < 2 ^ 53 \<Longrightarrow> double_of_int i = Fin i"
proof -
  assume "\<bar>i\<bar> < 2 ^ 53"
  then have "nat \<bar>i\<bar> < 2 ^ 53" by (simp add: nat_less_iff)
  then show ?thesis by (simp only: double_of_int_def Let_def if_True)
qed

lemma JSON_stringify_JArr: "JSON_stringify (JArr vs) = Some (stringify_array vs)"
  by (simp add: JSON_stringify_def stringify_array_def)

lemma serializedItems_concat:
  "serializedItems s =
     concat (map (\<lambda>collection. map (serializedItem (name collection)) (all collection))
                 (Map_values (p_collections s)))"
proof -
  have "foldl (\<lambda>items collection. items @ g collection) acc cs = acc @ concat (map g cs)"
    for g :: "collection \<Rightarrow> obj list" and acc cs
    by (induction cs arbitrary: acc) simp_all
  then show ?thesis by (simp add: serializedItems_def)
qed

section \<open>The rebuilding loop\<close>

lemma validated_item:
  assumes "validateSerializedItem item = Inr ()"
  shows "\<exists>props cname. item = JObj props \<and> obj_get props ''_collection'' = JStr cname
           \<and> cname \<noteq> '''' \<and> obj_get props ''_id'' \<noteq> JStr ''''
           \<and> (typeof (obj_get props ''_id'') = ''string'' \<or> typeof (obj_get props ''_id'') = ''number'')"
proof (cases item)
  case (JObj props)
  with assms have v: "validateSerializedItem (JObj props) = Inr ()" by simp
  then have "typeof (obj_get props ''_collection'') = ''string''"
    by (simp add: validate_obj_cases split: if_splits)
  then obtain cname where "obj_get props ''_collection'' = JStr cname"
    by (cases "obj_get props ''_collection''") simp_all
  with v JObj show ?thesis by (auto simp: validate_obj_cases split: if_splits)
qed (use assms in \<open>simp_all add: validateSerializedItem_def itemHasProp_def\<close>)

lemma obj_rest_absent: "k \<in> set ks \<Longrightarrow> map_of (obj_rest ks props) k = None"
  by (auto simp: obj_rest_def map_of_eq_None_iff)

lemma item_id_rebuilt:
  "item_id (obj_spread [(''_id'', k)] (obj_rest [''_id'', ''_collection''] props)) = k"
  by (simp add: item_id_def obj_get_spread_absent obj_rest_absent) (simp add: obj_get_def)

lemma update_update: "AList.update k v (AList.update k w al) = AList.update k v al"
  by (induction al) auto

lemma rebuild_item_cases:
  assumes "validateSerializedItem (JObj props) = Inr ()"
    and "obj_get props ''_collection'' = JStr n"
  shows "rebuild_item s (JObj props) =
     (if Map_has (p_items (lookup_or_new s n)) (obj_get props ''_id'')
      then Inl (InsertionError IdAlreadyExists)
      else Inr (s\<lparr>p_collections :=
                    AList.update n
                      ((lookup_or_new s n)\<lparr>p_items := p_items (lookup_or_new s n)
                          @ [(obj_get props ''_id'', rebuilt_record props)]\<rparr>)
                      (p_collections s)\<rparr>))"
proof -
  from validated_item[OF assms(1)]
  have ty: "typeof (obj_get props ''_id'') = ''string'' \<or> typeof (obj_get props ''_id'') = ''number''"
    by auto
  show ?thesis
  proof (cases "map_of (p_collections s) n")
    case None
    then show ?thesis
      using assms ty
      by (auto simp: rebuild_item_def collections_def Map_get_def Let_def insertNoSave_cases
          item_id_rebuilt put_collection_def Map_set_def update_update lookup_or_new_def
          rebuilt_record_def Map_set_fresh[unfolded Map_set_def] update_fresh Map_has_iff)
  next
    case (Some c)
    then show ?thesis
      using assms ty
      by (auto simp: rebuild_item_def collections_def Map_get_def Let_def insertNoSave_cases
          item_id_rebuilt put_collection_def Map_set_def update_update lookup_or_new_def
          rebuilt_record_def update_fresh Map_has_iff)
  qed
qed

lemma has_record_stored: "has_record s n k \<longleftrightarrow> (\<exists>r. stored s n k r)"
  by (auto simp: has_record_def stored_def get_eq Map_has_def split: option.splits)

lemma rebuild_item_ok:
  assumes "validateSerializedItem (JObj props) = Inr ()"
    and "obj_get props ''_collection'' = JStr n"
    and "rebuild_item s (JObj props) = Inr s1"
  shows "\<not> has_record s n (obj_get props ''_id'')"
    and "stored s1 n (obj_get props ''_id'') (rebuilt_record props)"
    and "stored s m k r \<Longrightarrow> stored s1 m k r"
    and "fPath s1 = fPath s"
proof -
  let ?c = "lookup_or_new s n"
  let ?k = "obj_get props ''_id''"
  from assms have fresh: "\<not> Map_has (p_items ?c) ?k"
    and s1: "s1 = s\<lparr>p_collections := AList.update n
                 (?c\<lparr>p_items := p_items ?c @ [(?k, rebuilt_record props)]\<rparr>) (p_collections s)\<rparr>"
    by (auto simp: rebuild_item_cases split: if_splits)
  from fresh show "\<not> has_record s n ?k"
    by (auto simp: has_record_def lookup_or_new_def Map_get_def split: option.splits)
  from fresh show "stored s1 n ?k (rebuilt_record props)"
    by (simp add: s1 stored_def Map_get_def update_conv' get_eq Map_has_def map_add_def)
  show "fPath s1 = fPath s" by (simp add: s1)
  show "stored s1 m k r" if "stored s m k r"
  proof (cases "m = n")
    case True
    with that obtain c where c: "map_of (p_collections s) n = Some c" "map_of (p_items c) k = Some r"
      by (auto simp: stored_def Map_get_def get_eq split: option.splits)
    then have "?c = c" by (simp add: lookup_or_new_def)
    with c True show ?thesis
      by (simp add: s1 stored_def Map_get_def update_conv' get_eq map_add_def)
  next
    case False
    with that show ?thesis
      by (simp add: s1 stored_def Map_get_def update_conv')
  qed
qed

lemma rebuild_item_dup:
  assumes "validateSerializedItem item = Inr ()" and "has_tag s (tag item)"
  shows "rebuild_item s item = Inl (InsertionError IdAlreadyExists)"
proof -
  from validated_item[OF assms(1)] obtain props n where
    it: "item = JObj props" "obj_get props ''_collection'' = JStr n" by blast
  with assms(2) have "has_record s n (obj_get props ''_id'')" by (simp add: tag_def)
  then have "Map_has (p_items (lookup_or_new s n)) (obj_get props ''_id'')"
    by (auto simp: has_record_def lookup_or_new_def Map_get_def split: option.splits)
  with assms(1) it show ?thesis by (simp add: rebuild_item_cases)
qed

lemma rebuild_item_err:
  assumes "validateSerializedItem item = Inr ()" and "rebuild_item s item = Inl e"
  shows "e = InsertionError IdAlreadyExists"
proof -
  from validated_item[OF assms(1)] obtain props n where
    it: "item = JObj props" "obj_get props ''_collection'' = JStr n" by blast
  with assms show ?thesis by (auto simp: rebuild_item_cases split: if_splits)
qed

lemma rebuild_item_tag:
  assumes "validateSerializedItem item = Inr ()" and "rebuild_item s item = Inr s1"
  shows "\<not> has_tag s (tag item)" and "has_tag s1 (tag item)"
    and "has_tag s t \<Longrightarrow> has_tag s1 t"
proof -
  from validated_item[OF assms(1)] obtain props n where
    it: "item = JObj props" "obj_get props ''_collection'' = JStr n" by blast
  note ok = rebuild_item_ok[OF assms(1)[unfolded it(1)] it(2) assms(2)[unfolded it(1)]]
  from ok(1) it show "\<not> has_tag s (tag item)" by (simp add: tag_def)
  from ok(2) it show "has_tag s1 (tag item)" by (auto simp: tag_def has_record_stored)
  show "has_tag s1 t" if "has_tag s t"
  proof -
    from that obtain m k where t: "t = (JStr m, k)" "has_record s m k"
      by (cases "(s, t)" rule: has_tag.cases) auto
    then obtain r where "stored s m k r" by (auto simp: has_record_stored)
    then have "stored s1 m k r" by (rule ok(3))
    with t show ?thesis by (auto simp: has_record_stored)
  qed
qed

lemma forEach_append:
  "forEach_rebuild s (xs @ ys) =
     (case forEach_rebuild s xs of Inl e \<Rightarrow> Inl e | Inr s1 \<Rightarrow> forEach_rebuild s1 ys)"
  by (induction xs arbitrary: s) (auto split: sum.splits)

lemma forEach_duplicate:
  assumes "list_all valid_item items"
    and "(\<exists>it \<in> set items. has_tag s (tag it)) \<or> \<not> distinct (map tag items)"
  shows "forEach_rebuild s items = Inl (InsertionError IdAlreadyExists)"
  using assms
proof (induction items arbitrary: s)
  case Nil
  then show ?case by simp
next
  case (Cons item rest)
  from Cons.prems(1) have v: "validateSerializedItem item = Inr ()"
    by (simp add: valid_item_def)
  from Cons.prems(1) have vs: "list_all valid_item rest"
    by simp
  show ?case
  proof (cases "rebuild_item s item")
    case (Inl e)
    with v have "e = InsertionError IdAlreadyExists" by (rule rebuild_item_err)
    with Inl show ?thesis by simp
  next
    case (Inr s1)
    note t = rebuild_item_tag[OF v Inr]
    have "(\<exists>it \<in> set rest. has_tag s1 (tag it)) \<or> \<not> distinct (map tag rest)"
    proof -
      from Cons.prems(2) consider
        (a) it where "it \<in> set (item # rest)" "has_tag s (tag it)"
        | (b) "\<not> distinct (map tag (item # rest))" by blast
      then show ?thesis
      proof cases
        case a
        with t(1) have "it \<in> set rest" by auto
        with a t(3) show ?thesis by blast
      next
        case b
        then have "tag item \<in> set (map tag rest) \<or> \<not> distinct (map tag rest)" by auto
        with t(2) show ?thesis by auto
      qed
    qed
    with vs have "forEach_rebuild s1 rest = Inl (InsertionError IdAlreadyExists)"
      by (rule Cons.IH)
    with Inr show ?thesis by simp
  qed
qed

lemma new_Store_empty_path: "new_Store dn f '''' = Inr \<lparr>fPath = '''', p_collections = []\<rparr>"
  by (simp add: new_Store_def initStore_def)

lemma insert_fs: "snd (insert dn c object ident uuid f) = f"
  by (simp add: insert_eq)





section \<open>The loading loop groups the tagged records\<close>















lemma from_json_array: "(\<exists>items. from_json j = JArr items) \<longleftrightarrow> (\<exists>js. j = JsArr js)"
  by (cases j) auto

section \<open>JSON values survive the round trip\<close>

lemma obj_spread_disjoint:
  "distinct (map fst src) \<Longrightarrow> fst ` set src \<inter> fst ` set base = {} \<Longrightarrow> obj_spread base src = base @ src"
proof (induction src arbitrary: base)
  case Nil
  then show ?case by (simp add: obj_spread_def)
next
  case (Cons kv src)
  have u: "AList.update (fst kv) (snd kv) base = base @ [kv]"
    using Cons.prems(2) by (simp add: update_fresh)
  have "obj_spread (base @ [kv]) src = (base @ [kv]) @ src"
    using Cons.prems by (intro Cons.IH) auto
  then show ?case using u by (simp add: obj_spread_def)
qed

lemma json_elems:
  assumes "\<And>v. v \<in> set vs \<Longrightarrow> \<exists>j. to_json v = Some j \<and> from_json j = v"
  shows "map from_json (map (\<lambda>v. case to_json v of None \<Rightarrow> JsNull | Some j \<Rightarrow> j) vs) = vs"
  using assms
proof (induction vs)
  case Nil
  then show ?case by simp
next
  case (Cons v vs)
  from Cons.prems[of v] obtain j where "to_json v = Some j" "from_json j = v" by auto
  moreover have "map from_json (map (\<lambda>v. case to_json v of None \<Rightarrow> JsNull | Some j \<Rightarrow> j) vs) = vs"
    using Cons.prems by (intro Cons.IH) auto
  ultimately show ?case by simp
qed

lemma json_members:
  assumes "\<And>kv. kv \<in> set fs \<Longrightarrow> \<exists>j. to_json (snd kv) = Some j \<and> from_json j = snd kv"
  shows "map (\<lambda>kv. (fst kv, from_json (snd kv)))
           (concat (map (\<lambda>kv. case to_json (snd kv) of None \<Rightarrow> [] | Some j \<Rightarrow> [(fst kv, j)]) fs)) = fs"
  using assms
proof (induction fs)
  case Nil
  then show ?case by simp
next
  case (Cons kv fs)
  from Cons.prems[of kv] obtain j where "to_json (snd kv) = Some j" "from_json j = snd kv" by auto
  moreover have "map (\<lambda>kv. (fst kv, from_json (snd kv)))
           (concat (map (\<lambda>kv. case to_json (snd kv) of None \<Rightarrow> [] | Some j \<Rightarrow> [(fst kv, j)]) fs)) = fs"
    using Cons.prems by (intro Cons.IH) auto
  ultimately show ?case by simp
qed

lemma json_safe_roundtrip: "json_safe v \<Longrightarrow> \<exists>j. to_json v = Some j \<and> from_json j = v"
proof (induction v)
  case (JNum n)
  then show ?case by (cases n) simp_all
next
  case (JArr vs)
  have "map from_json (map (\<lambda>v. case to_json v of None \<Rightarrow> JsNull | Some j \<Rightarrow> j) vs) = vs"
    using JArr by (intro json_elems) (auto simp: list_all_iff)
  then show ?case by simp
next
  case (JObj fs)
  have "map (\<lambda>kv. (fst kv, from_json (snd kv)))
           (concat (map (\<lambda>kv. case to_json (snd kv) of None \<Rightarrow> [] | Some j \<Rightarrow> [(fst kv, j)]) fs)) = fs"
  proof (rule json_members)
    fix kv assume "kv \<in> set fs"
    moreover have "snd kv \<in> Basic_BNFs.snds kv" by (cases kv) simp
    ultimately show "\<exists>j. to_json (snd kv) = Some j \<and> from_json j = snd kv"
      using JObj by (auto simp: list_all_iff)
  qed
  moreover have "obj_spread [] fs = fs"
    using JObj.prems by (simp add: obj_spread_disjoint)
  ultimately show ?case by simp
qed simp_all

lemma json_parse_array:
  assumes "list_all json_safe vs"
  shows "JSON_parse (stringify_array vs) = Inr (JArr vs)"
proof -
  have "map from_json (map (\<lambda>v. case to_json v of None \<Rightarrow> JsNull | Some j \<Rightarrow> j) vs) = vs"
    using assms by (intro json_elems) (auto simp: list_all_iff json_safe_roundtrip)
  then show ?thesis by (simp add: stringify_array_def)
qed

section \<open>What serialize writes for a record\<close>

lemma record_ok_id_member:
  assumes "record_ok (k, r)"
  shows "map_of r ''_id'' = Some k"
proof -
  from assms have "obj_get r ''_id'' = k" and "typeof k = ''string'' \<or> typeof k = ''number''"
    by (simp_all add: record_ok_def item_id_def)
  then show ?thesis by (cases "map_of r ''_id''") (auto simp: obj_get_def)
qed

lemma obj_rest_keys: "fst ` set (obj_rest ks r) = fst ` set r - set ks"
  by (auto simp: obj_rest_def)

lemma obj_rest_distinct: "distinct (map fst r) \<Longrightarrow> distinct (map fst (obj_rest ks r))"
  by (simp add: obj_rest_def distinct_map_filter)

lemma serializedItem_eq:
  assumes "record_ok (k, r)"
  shows "serializedItem n r = [(''_id'', k), (''_collection'', JStr n)] @ obj_rest [''_id''] r"
proof -
  from assms have id: "obj_get r ''_id'' = k" and nc: "map_of r ''_collection'' = None"
    and d: "distinct (map fst r)"
    by (simp_all add: record_ok_def item_id_def)
  from nc have "''_collection'' \<notin> fst ` set r" by (simp add: map_of_eq_None_iff)
  then have "fst ` set (obj_rest [''_id''] r) \<inter> fst ` set [(''_id'', k), (''_collection'', JStr n)] = {}"
    by (auto simp: obj_rest_keys)
  with d have "obj_spread [(''_id'', k), (''_collection'', JStr n)] (obj_rest [''_id''] r)
                 = [(''_id'', k), (''_collection'', JStr n)] @ obj_rest [''_id''] r"
    by (intro obj_spread_disjoint obj_rest_distinct)
  then show ?thesis by (simp add: serializedItem_def id Let_def)
qed

lemma serializedItem_safe:
  assumes "record_ok (k, r)"
  shows "json_safe (JObj (serializedItem n r))"
proof -
  from assms have nc: "map_of r ''_collection'' = None" and d: "distinct (map fst r)"
    and vs: "list_all (\<lambda>kv. json_safe (snd kv)) r"
    by (simp_all add: record_ok_def)
  from record_ok_id_member[OF assms] have "(''_id'', k) \<in> set r" by (rule map_of_SomeD)
  with vs have k: "json_safe k" by (auto simp: list_all_iff)
  from nc have "''_collection'' \<notin> fst ` set r" by (simp add: map_of_eq_None_iff)
  then have keys: "''_collection'' \<notin> fst ` set (obj_rest [''_id''] r)"
    "''_id'' \<notin> fst ` set (obj_rest [''_id''] r)"
    by (auto simp: obj_rest_keys)
  from vs have "list_all (\<lambda>kv. json_safe (snd kv)) (obj_rest [''_id''] r)"
    by (auto simp: obj_rest_def list_all_iff)
  with k keys d show ?thesis
    by (simp add: serializedItem_eq[OF assms] obj_rest_distinct)
qed

lemma serializedItem_props:
  assumes "record_ok (k, r)"
  shows "obj_get (serializedItem n r) ''_id'' = k"
    and "obj_get (serializedItem n r) ''_collection'' = JStr n"
  by (simp_all add: serializedItem_eq[OF assms] obj_get_def)

lemma serializedItem_valid:
  assumes "record_ok (k, r)" and "n \<noteq> ''''"
  shows "validateSerializedItem (JObj (serializedItem n r)) = Inr ()"
  using assms
  by (auto simp: validate_obj_cases serializedItem_props[OF assms(1)] record_ok_def)

lemma obj_rest_none: "fst ` set r \<inter> set ks = {} \<Longrightarrow> obj_rest ks r = r"
  by (induction r) (auto simp: obj_rest_def)

lemma serializedItem_rebuilt:
  assumes "record_ok (k, r)"
  shows "rebuilt_record (serializedItem n r) = normal_record r"
proof -
  from assms have id: "item_id r = k" and nc: "map_of r ''_collection'' = None"
    and d: "distinct (map fst r)"
    by (simp_all add: record_ok_def)
  let ?rest = "obj_rest [''_id''] r"
  from nc have "''_collection'' \<notin> fst ` set r" by (simp add: map_of_eq_None_iff)
  then have "fst ` set ?rest \<inter> set [''_id'', ''_collection''] = {}"
    by (auto simp: obj_rest_keys)
  then have a: "obj_rest [''_id'', ''_collection''] ?rest = ?rest" by (rule obj_rest_none)
  have b: "obj_rest [''_id'', ''_collection''] (serializedItem n r) = ?rest"
    using a by (simp add: serializedItem_eq[OF assms]) (simp add: obj_rest_def)
  have "fst ` set ?rest \<inter> fst ` set [(''_id'', k)] = {}" by (auto simp: obj_rest_keys)
  with d have "obj_spread [(''_id'', k)] ?rest = [(''_id'', k)] @ ?rest"
    by (intro obj_spread_disjoint obj_rest_distinct)
  then show ?thesis
    by (simp add: rebuilt_record_def b serializedItem_props[OF assms] normal_record_def id)
qed

lemma normal_record_fields:
  assumes "record_ok (k, r)"
  shows "map_of (normal_record r) = map_of r"
proof
  fix x
  from assms have id: "item_id r = k" by (simp add: record_ok_def)
  have rest: "map_of (obj_rest [''_id''] r) x = map_of r x" if "x \<noteq> ''_id''"
    using that by (induction r) (auto simp: obj_rest_def)
  show "map_of (normal_record r) x = map_of r x"
    using record_ok_id_member[OF assms] rest by (simp add: normal_record_def id)
qed

section \<open>Rebuilding what serialize wrote\<close>

lemma rebuild_serialized:
  assumes "record_ok (k, r)" and "n \<noteq> ''''"
    and "\<not> Map_has (p_items (lookup_or_new s n)) k"
  shows "rebuild_item s (JObj (serializedItem n r)) =
     Inr (s\<lparr>p_collections :=
              AList.update n
                ((lookup_or_new s n)\<lparr>p_items := p_items (lookup_or_new s n) @ [(k, normal_record r)]\<rparr>)
                (p_collections s)\<rparr>)"
  using assms(3)
  by (simp add: rebuild_item_cases[OF serializedItem_valid[OF assms(1,2)] serializedItem_props(2)[OF assms(1)]]
      serializedItem_props(1)[OF assms(1)] serializedItem_rebuilt[OF assms(1)])

lemma update_last: "n \<notin> fst ` set pre \<Longrightarrow> AList.update n v (pre @ [(n, w)]) = pre @ [(n, v)]"
  by (induction pre) auto

lemma lookup_last:
  "n \<notin> fst ` set pre \<Longrightarrow> p_collections s = pre @ [(n, c)] \<Longrightarrow> lookup_or_new s n = c"
  by (simp add: lookup_or_new_def map_add_def map_of_eq_None_iff[THEN iffD2])

lemma load_more:
  assumes "n \<notin> fst ` set pre" and "n \<noteq> ''''"
  shows "p_collections s = pre @ [(n, c)] \<Longrightarrow> list_all record_ok krs \<Longrightarrow>
         distinct (map fst krs) \<Longrightarrow> fst ` set krs \<inter> fst ` set (p_items c) = {} \<Longrightarrow>
         forEach_rebuild s (map (\<lambda>kr. JObj (serializedItem n (snd kr))) krs) =
           Inr (s\<lparr>p_collections :=
                    pre @ [(n, c\<lparr>p_items := p_items c
                                   @ map (\<lambda>kr. (fst kr, normal_record (snd kr))) krs\<rparr>)]\<rparr>)"
proof (induction krs arbitrary: s c)
  case Nil
  then show ?case by simp
next
  case (Cons kr krs)
  obtain k r where kr: "kr = (k, r)" by (cases kr)
  let ?c1 = "c\<lparr>p_items := p_items c @ [(k, normal_record r)]\<rparr>"
  let ?s1 = "s\<lparr>p_collections := pre @ [(n, ?c1)]\<rparr>"
  from Cons.prems(2) kr have ok: "record_ok (k, r)" by simp
  have look: "lookup_or_new s n = c" using assms(1) Cons.prems(1) by (rule lookup_last)
  from Cons.prems(4) kr have fresh: "\<not> Map_has (p_items c) k" by (auto simp: Map_has_iff)
  have step: "rebuild_item s (JObj (serializedItem n r)) = Inr ?s1"
    using rebuild_serialized[OF ok assms(2), of s] fresh assms(1) Cons.prems(1)
    by (simp add: look update_last)
  have "forEach_rebuild ?s1 (map (\<lambda>kr. JObj (serializedItem n (snd kr))) krs) =
           Inr (?s1\<lparr>p_collections :=
                    pre @ [(n, ?c1\<lparr>p_items := p_items ?c1
                                   @ map (\<lambda>kr. (fst kr, normal_record (snd kr))) krs\<rparr>)]\<rparr>)"
  proof (rule Cons.IH)
    show "p_collections ?s1 = pre @ [(n, ?c1)]" by simp
    show "list_all record_ok krs" using Cons.prems(2) by simp
    show "distinct (map fst krs)" using Cons.prems(3) by simp
    show "fst ` set krs \<inter> fst ` set (p_items ?c1) = {}"
      using Cons.prems(3,4) kr by auto
  qed
  with step kr show ?case by simp
qed

lemma load_collection:
  assumes "n \<notin> fst ` set (p_collections s)" and "collection_ok (n, c)"
  shows "forEach_rebuild s (map (\<lambda>kr. JObj (serializedItem n (snd kr))) (p_items c)) =
           Inr (s\<lparr>p_collections := p_collections s @ [normal_collection (n, c)]\<rparr>)"
proof -
  from assms(2) have n: "n \<noteq> ''''" and ne: "p_items c \<noteq> []"
    and d: "distinct (map fst (p_items c))" and oks: "list_all record_ok (p_items c)"
    by (simp_all add: collection_ok_def)
  from ne obtain kr krs where items: "p_items c = kr # krs" by (cases "p_items c") auto
  obtain k r where kr: "kr = (k, r)" by (cases kr)
  let ?c1 = "\<lparr>name = n, p_items = [(k, normal_record r)]\<rparr>"
  let ?s1 = "s\<lparr>p_collections := p_collections s @ [(n, ?c1)]\<rparr>"
  from oks items kr have ok: "record_ok (k, r)" by simp
  have look: "lookup_or_new s n = new_Collection n"
    using assms(1) by (simp add: lookup_or_new_def map_of_eq_None_iff[THEN iffD2])
  have step: "rebuild_item s (JObj (serializedItem n r)) = Inr ?s1"
    using rebuild_serialized[OF ok n, of s] assms(1)
    by (simp add: look new_Collection_def Map_has_def update_fresh)
  have "forEach_rebuild ?s1 (map (\<lambda>kr. JObj (serializedItem n (snd kr))) krs) =
           Inr (?s1\<lparr>p_collections :=
                    p_collections s @ [(n, ?c1\<lparr>p_items := p_items ?c1
                                   @ map (\<lambda>kr. (fst kr, normal_record (snd kr))) krs\<rparr>)]\<rparr>)"
  proof (rule load_more[OF assms(1) n])
    show "p_collections ?s1 = p_collections s @ [(n, ?c1)]" by simp
    show "list_all record_ok krs" using oks items by simp
    show "distinct (map fst krs)" using d items by simp
    show "fst ` set krs \<inter> fst ` set (p_items ?c1) = {}" using d items kr by auto
  qed
  with step items kr show ?thesis by (simp add: normal_collection_def)
qed

lemma load_collections:
  "distinct (map fst (p_collections s @ cs)) \<Longrightarrow> list_all collection_ok cs \<Longrightarrow>
   forEach_rebuild s
     (concat (map (\<lambda>nc. map (\<lambda>kr. JObj (serializedItem (fst nc) (snd kr))) (p_items (snd nc))) cs)) =
     Inr (s\<lparr>p_collections := p_collections s @ map normal_collection cs\<rparr>)"
proof (induction cs arbitrary: s)
  case Nil
  then show ?case by simp
next
  case (Cons nc cs)
  obtain n c where nc: "nc = (n, c)" by (cases nc)
  let ?s1 = "s\<lparr>p_collections := p_collections s @ [normal_collection (n, c)]\<rparr>"
  from Cons.prems(1) nc have fresh: "n \<notin> fst ` set (p_collections s)" by auto
  from Cons.prems(2) nc have ok: "collection_ok (n, c)" by simp
  have one: "forEach_rebuild s (map (\<lambda>kr. JObj (serializedItem n (snd kr))) (p_items c)) = Inr ?s1"
    using fresh ok by (rule load_collection)
  have "forEach_rebuild ?s1
     (concat (map (\<lambda>nc. map (\<lambda>kr. JObj (serializedItem (fst nc) (snd kr))) (p_items (snd nc))) cs)) =
     Inr (?s1\<lparr>p_collections := p_collections ?s1 @ map normal_collection cs\<rparr>)"
  proof (rule Cons.IH)
    show "distinct (map fst (p_collections ?s1 @ cs))"
      using Cons.prems(1) nc by (simp add: normal_collection_def)
    show "list_all collection_ok cs" using Cons.prems(2) by simp
  qed
  with one nc show ?case by (simp add: forEach_append)
qed

lemma serialized_tagged:
  assumes "list_all collection_ok cs"
  shows "map JObj (concat (map (\<lambda>collection. map (serializedItem (name collection)) (all collection))
                            (Map_values cs)))
       = concat (map (\<lambda>nc. map (\<lambda>kr. JObj (serializedItem (fst nc) (snd kr))) (p_items (snd nc))) cs)"
  using assms
  by (induction cs) (simp_all add: Map_values_def all_def collection_ok_def)

lemma serialized_safe:
  assumes "list_all collection_ok cs"
  shows "list_all json_safe
           (concat (map (\<lambda>nc. map (\<lambda>kr. JObj (serializedItem (fst nc) (snd kr))) (p_items (snd nc))) cs))"
proof -
  have "json_safe (JObj (serializedItem (fst nc) (snd kr)))"
    if "nc \<in> set cs" "kr \<in> set (p_items (snd nc))" for nc kr
  proof -
    from assms that have "record_ok kr" by (auto simp: list_all_iff collection_ok_def)
    then have "record_ok (fst kr, snd kr)" by simp
    then show ?thesis by (rule serializedItem_safe)
  qed
  then show ?thesis by (auto simp: list_all_iff)
qed

lemma same_normal_collection:
  assumes "collection_ok (n, c)"
  shows "same_collection c (snd (normal_collection (n, c)))"
proof -
  have "map_of (normal_record (snd kr)) = map_of (snd kr)" if "kr \<in> set (p_items c)" for kr
  proof -
    from assms that have "record_ok (fst kr, snd kr)" by (auto simp: list_all_iff collection_ok_def)
    then show ?thesis by (rule normal_record_fields)
  qed
  then have "list_all2 (\<lambda>r r1. map_of r1 = map_of r) (map snd (p_items c))
               (map snd (map (\<lambda>kr. (fst kr, normal_record (snd kr))) (p_items c)))"
    by (auto simp: list_all2_conv_all_nth)
  with assms show ?thesis
    by (simp add: same_collection_def normal_collection_def collection_ok_def count_def
        Map_size_def Map_keys_def all_def Map_values_def comp_def)
qed

section \<open>The fields of a rebuilt record\<close>





section \<open>The round trip of a store\<close>

text \<open>
  Claim C1 says that \<open>storeFromObjects\<close> on \<open>JSON.parse(store.serialize())\<close> gives a store with
  the same collection names, records and counts, for every store without duplicate
  identifiers. Three stores the program builds for which it does not: a store whose
  collection \<open>users\<close> has no record yet comes back without the collection, since the flat
  array has nothing to say about it; a record of \<open>users\<close> with a field \<open>_collection: "posts"\<close>
  comes back in a collection \<open>posts\<close>, without the field, since the spread of the record
  overwrites the tag; and a record whose identifier is \<open>NaN\<close> is written with \<open>_id: null\<close>,
  which the validation rejects.
\<close>

theorem roundtrip_counterexample:
  "collections \<lparr>fPath = '''', p_collections = []\<rparr> ''users''
     = (new_Collection ''users'',
        \<lparr>fPath = '''', p_collections = [(''users'', \<lparr>name = ''users'', p_items = []\<rparr>)]\<rparr>)
 \<and> roundtrip (\<lambda>p. ''.'') \<lparr>dirs = {''.''}, files = Map.empty\<rparr>
      \<lparr>fPath = '''', p_collections = [(''users'', \<lparr>name = ''users'', p_items = []\<rparr>)]\<rparr>
     = Inr \<lparr>fPath = '''', p_collections = []\<rparr>
 \<and> collNames \<lparr>fPath = '''', p_collections = [(''users'', \<lparr>name = ''users'', p_items = []\<rparr>)]\<rparr>
     = [''users'']
 \<and> collNames \<lparr>fPath = '''', p_collections = []\<rparr> = []
 \<and> insertSync (new_Collection ''users'') [(''_collection'', JStr ''posts'')] (JNum (Fin 1)) ''u''
     = (Inr (), \<lparr>name = ''users'', p_items =
          [(JNum (Fin 1), [(''_id'', JNum (Fin 1)), (''_collection'', JStr ''posts'')])]\<rparr>)
 \<and> roundtrip (\<lambda>p. ''.'') \<lparr>dirs = {''.''}, files = Map.empty\<rparr>
      \<lparr>fPath = '''', p_collections = [(''users'', \<lparr>name = ''users'', p_items =
          [(JNum (Fin 1), [(''_id'', JNum (Fin 1)), (''_collection'', JStr ''posts'')])]\<rparr>)]\<rparr>
     = Inr \<lparr>fPath = '''', p_collections = [(''posts'', \<lparr>name = ''posts'', p_items =
          [(JNum (Fin 1), [(''_id'', JNum (Fin 1))])]\<rparr>)]\<rparr>
 \<and> insertSync (new_Collection ''users'') [] (JNum NaN) ''u''
     = (Inr (), \<lparr>name = ''users'', p_items = [(JNum NaN, [(''_id'', JNum NaN)])]\<rparr>)
 \<and> roundtrip (\<lambda>p. ''.'') \<lparr>dirs = {''.''}, files = Map.empty\<rparr>
      \<lparr>fPath = '''', p_collections = [(''users'', \<lparr>name = ''users'', p_items =
          [(JNum NaN, [(''_id'', JNum NaN)])]\<rparr>)]\<rparr>
     = Inl (InvalidItemError MissingOrWrongType)"
proof -
  let ?f = "\<lparr>dirs = {''.''}, files = Map.empty\<rparr>"
  let ?sA = "\<lparr>fPath = '''', p_collections = [(''users'', \<lparr>name = ''users'', p_items = []\<rparr>)]\<rparr>"
  let ?sB = "\<lparr>fPath = '''', p_collections = [(''users'', \<lparr>name = ''users'', p_items =
          [(JNum (Fin 1), [(''_id'', JNum (Fin 1)), (''_collection'', JStr ''posts'')])]\<rparr>)]\<rparr>"
  let ?sC = "\<lparr>fPath = '''', p_collections = [(''users'', \<lparr>name = ''users'', p_items =
          [(JNum NaN, [(''_id'', JNum NaN)])]\<rparr>)]\<rparr>"
  have a1: "collections \<lparr>fPath = '''', p_collections = []\<rparr> ''users''
     = (new_Collection ''users'', ?sA)"
    by (simp add: collections_def Map_get_def Map_set_def Let_def new_Collection_def)
  have a2: "roundtrip (\<lambda>p. ''.'') ?f ?sA = Inr \<lparr>fPath = '''', p_collections = []\<rparr>"
    by (simp add: roundtrip_def serialize_def serializedItems_def stringify_array_def
        Map_values_def all_def storeFromObjects_def new_Store_empty_path)
  have a3: "collNames ?sA = [''users'']" "collNames \<lparr>fPath = '''', p_collections = []\<rparr> = []"
    by (simp_all add: collNames_def Map_keys_def)
  have b1: "insertSync (new_Collection ''users'') [(''_collection'', JStr ''posts'')] (JNum (Fin 1)) ''u''
     = (Inr (), \<lparr>name = ''users'', p_items =
          [(JNum (Fin 1), [(''_id'', JNum (Fin 1)), (''_collection'', JStr ''posts'')])]\<rparr>)"
    by (simp add: insertSync_def p_putInMap_new_item insertNoSave_cases new_item_def
        obj_spread_def item_id_def obj_get_def Map_has_def Map_set_def new_Collection_def)
  have b2: "roundtrip (\<lambda>p. ''.'') ?f ?sB
     = Inr \<lparr>fPath = '''', p_collections = [(''posts'', \<lparr>name = ''posts'', p_items =
          [(JNum (Fin 1), [(''_id'', JNum (Fin 1))])]\<rparr>)]\<rparr>"
    by (simp add: roundtrip_def serialize_def serializedItems_def stringify_array_def
        serializedItem_def Map_values_def all_def storeFromObjects_def new_Store_empty_path
        obj_get_def obj_rest_def obj_spread_def double_small
        rebuild_item_def validate_obj_cases collections_def Map_get_def
        Map_set_def Let_def new_Collection_def insertNoSave_cases item_id_def
        Map_has_def put_collection_def)
  have c1: "insertSync (new_Collection ''users'') [] (JNum NaN) ''u''
     = (Inr (), \<lparr>name = ''users'', p_items = [(JNum NaN, [(''_id'', JNum NaN)])]\<rparr>)"
    by (simp add: insertSync_def p_putInMap_new_item insertNoSave_cases new_item_def
        obj_spread_def item_id_def obj_get_def Map_has_def Map_set_def new_Collection_def)
  have c2: "roundtrip (\<lambda>p. ''.'') ?f ?sC = Inl (InvalidItemError MissingOrWrongType)"
    by (simp add: roundtrip_def serialize_def serializedItems_def stringify_array_def
        serializedItem_def Map_values_def all_def storeFromObjects_def new_Store_empty_path
        obj_get_def obj_rest_def obj_spread_def
        rebuild_item_def validate_obj_cases)
  from a1 a2 a3 b1 b2 c1 c2 show ?thesis by simp
qed

text \<open>
  Claim C1, amended. Let every collection of the store be registered under its own name and
  every record be stored under its own \<open>_id\<close>, a string or a number, with no identifier twice
  in a collection (as in every store the program builds), and let moreover every collection
  hold at least one record, no record have a field \<open>_collection\<close>, every record be made of
  JSON values only, and no identifier and no collection name be the empty string. Then
  \<open>storeFromObjects\<close> on \<open>JSON.parse(store.serialize())\<close> succeeds; the store it returns has
  the empty path and the same collection names in the same order; and collection by
  collection it has the same name, the same count, the same identifiers in the same order
  and, under each identifier, a record with the same fields and the same values. Nothing
  is said of the order of the fields of a record.
\<close>

theorem roundtrip_store:
  assumes "store_ok s"
  shows "\<exists>s1. roundtrip dn f s = Inr s1
            \<and> fPath s1 = ''''
            \<and> collNames s1 = collNames s
            \<and> list_all2 same_collection (Map_values (p_collections s)) (Map_values (p_collections s1))"
proof -
  let ?cs = "p_collections s"
  let ?items = "concat (map (\<lambda>nc. map (\<lambda>kr. JObj (serializedItem (fst nc) (snd kr)))
                                     (p_items (snd nc))) ?cs)"
  let ?s1 = "\<lparr>fPath = '''', p_collections = map normal_collection ?cs\<rparr>"
  from assms have d: "distinct (map fst ?cs)" and oks: "list_all collection_ok ?cs"
    by (simp_all add: store_ok_def)
  have ser: "serialize s = stringify_array ?items"
    by (simp add: serialize_def serializedItems_concat serialized_tagged[OF oks])
  have "JSON_parse (serialize s) = Inr (JArr ?items)"
    unfolding ser using serialized_safe[OF oks] by (rule json_parse_array)
  moreover have "forEach_rebuild \<lparr>fPath = '''', p_collections = []\<rparr> ?items = Inr ?s1"
    using load_collections[of "\<lparr>fPath = '''', p_collections = []\<rparr>" ?cs] d oks by simp
  ultimately have rt: "roundtrip dn f s = Inr ?s1"
    by (simp add: roundtrip_def storeFromObjects_def new_Store_empty_path)
  have names: "collNames ?s1 = collNames s"
    by (simp add: collNames_def Map_keys_def normal_collection_def comp_def)
  have "same_collection (snd nc) (snd (normal_collection nc))" if "nc \<in> set ?cs" for nc
  proof -
    from oks that have "collection_ok (fst nc, snd nc)" by (auto simp: list_all_iff)
    then have "same_collection (snd nc) (snd (normal_collection (fst nc, snd nc)))"
      by (rule same_normal_collection)
    then show ?thesis by simp
  qed
  then have same: "list_all2 same_collection (Map_values ?cs) (Map_values (p_collections ?s1))"
    by (auto simp: list_all2_conv_all_nth Map_values_def)
  from rt names same show ?thesis by simp
qed

theorem roundtrip_store_witness:
  "store_ok \<lparr>fPath = ''db/data.json'', p_collections =
       [(''users'', \<lparr>name = ''users'', p_items =
           [(JNum (Fin 1), [(''_id'', JNum (Fin 1)), (''name'', JStr ''a'')]),
            (JStr ''k'', [(''name'', JStr ''b''), (''_id'', JStr ''k'')])]\<rparr>),
        (''posts'', \<lparr>name = ''posts'', p_items =
           [(JNum (Fin 1), [(''_id'', JNum (Fin 1)), (''tags'', JArr [JStr ''x'', JNull]),
                            (''meta'', JObj [(''n'', JNum (Fin 2))])])]\<rparr>)]\<rparr>
 \<and> roundtrip (\<lambda>p. ''.'') \<lparr>dirs = {''.''}, files = Map.empty\<rparr>
      \<lparr>fPath = ''db/data.json'', p_collections =
       [(''users'', \<lparr>name = ''users'', p_items =
           [(JNum (Fin 1), [(''_id'', JNum (Fin 1)), (''name'', JStr ''a'')]),
            (JStr ''k'', [(''name'', JStr ''b''), (''_id'', JStr ''k'')])]\<rparr>),
        (''posts'', \<lparr>name = ''posts'', p_items =
           [(JNum (Fin 1), [(''_id'', JNum (Fin 1)), (''tags'', JArr [JStr ''x'', JNull]),
                            (''meta'', JObj [(''n'', JNum (Fin 2))])])]\<rparr>)]\<rparr>
   = Inr \<lparr>fPath = '''', p_collections =
       [(''users'', \<lparr>name = ''users'', p_items =
           [(JNum (Fin 1), [(''_id'', JNum (Fin 1)), (''name'', JStr ''a'')]),
            (JStr ''k'', [(''_id'', JStr ''k''), (''name'', JStr ''b'')])]\<rparr>),
        (''posts'', \<lparr>name = ''posts'', p_items =
           [(JNum (Fin 1), [(''_id'', JNum (Fin 1)), (''tags'', JArr [JStr ''x'', JNull]),
                            (''meta'', JObj [(''n'', JNum (Fin 2))])])]\<rparr>)]\<rparr>
 \<and> collNames \<lparr>fPath = '''', p_collections =
       [(''users'', \<lparr>name = ''users'', p_items =
           [(JNum (Fin 1), [(''_id'', JNum (Fin 1)), (''name'', JStr ''a'')]),
            (JStr ''k'', [(''_id'', JStr ''k''), (''name'', JStr ''b'')])]\<rparr>),
        (''posts'', \<lparr>name = ''posts'', p_items =
           [(JNum (Fin 1), [(''_id'', JNum (Fin 1)), (''tags'', JArr [JStr ''x'', JNull]),
                            (''meta'', JObj [(''n'', JNum (Fin 2))])])]\<rparr>)]\<rparr>
   = collNames \<lparr>fPath = ''db/data.json'', p_collections =
       [(''users'', \<lparr>name = ''users'', p_items =
           [(JNum (Fin 1), [(''_id'', JNum (Fin 1)), (''name'', JStr ''a'')]),
            (JStr ''k'', [(''name'', JStr ''b''), (''_id'', JStr ''k'')])]\<rparr>),
        (''posts'', \<lparr>name = ''posts'', p_items =
           [(JNum (Fin 1), [(''_id'', JNum (Fin 1)), (''tags'', JArr [JStr ''x'', JNull]),
                            (''meta'', JObj [(''n'', JNum (Fin 2))])])]\<rparr>)]\<rparr>
 \<and> list_all2 same_collection
      (Map_values (p_collections \<lparr>fPath = ''db/data.json'', p_collections =
       [(''users'', \<lparr>name = ''users'', p_items =
           [(JNum (Fin 1), [(''_id'', JNum (Fin 1)), (''name'', JStr ''a'')]),
            (JStr ''k'', [(''name'', JStr ''b''), (''_id'', JStr ''k'')])]\<rparr>),
        (''posts'', \<lparr>name = ''posts'', p_items =
           [(JNum (Fin 1), [(''_id'', JNum (Fin 1)), (''tags'', JArr [JStr ''x'', JNull]),
                            (''meta'', JObj [(''n'', JNum (Fin 2))])])]\<rparr>)]\<rparr>))
      (Map_values (p_collections \<lparr>fPath = '''', p_collections =
       [(''users'', \<lparr>name = ''users'', p_items =
           [(JNum (Fin 1), [(''_id'', JNum (Fin 1)), (''name'', JStr ''a'')]),
            (JStr ''k'', [(''_id'', JStr ''k''), (''name'', JStr ''b'')])]\<rparr>),
        (''posts'', \<lparr>name = ''posts'', p_items =
           [(JNum (Fin 1), [(''_id'', JNum (Fin 1)), (''tags'', JArr [JStr ''x'', JNull]),
                            (''meta'', JObj [(''n'', JNum (Fin 2))])])]\<rparr>)]\<rparr>))"
proof -
  let ?f = "\<lparr>dirs = {''.''}, files = Map.empty\<rparr>"
  let ?s = "\<lparr>fPath = ''db/data.json'', p_collections =
       [(''users'', \<lparr>name = ''users'', p_items =
           [(JNum (Fin 1), [(''_id'', JNum (Fin 1)), (''name'', JStr ''a'')]),
            (JStr ''k'', [(''name'', JStr ''b''), (''_id'', JStr ''k'')])]\<rparr>),
        (''posts'', \<lparr>name = ''posts'', p_items =
           [(JNum (Fin 1), [(''_id'', JNum (Fin 1)), (''tags'', JArr [JStr ''x'', JNull]),
                            (''meta'', JObj [(''n'', JNum (Fin 2))])])]\<rparr>)]\<rparr>"
  let ?s1 = "\<lparr>fPath = '''', p_collections =
       [(''users'', \<lparr>name = ''users'', p_items =
           [(JNum (Fin 1), [(''_id'', JNum (Fin 1)), (''name'', JStr ''a'')]),
            (JStr ''k'', [(''_id'', JStr ''k''), (''name'', JStr ''b'')])]\<rparr>),
        (''posts'', \<lparr>name = ''posts'', p_items =
           [(JNum (Fin 1), [(''_id'', JNum (Fin 1)), (''tags'', JArr [JStr ''x'', JNull]),
                            (''meta'', JObj [(''n'', JNum (Fin 2))])])]\<rparr>)]\<rparr>"
  have h: "store_ok ?s"
    by (simp add: store_ok_def collection_ok_def record_ok_def item_id_def obj_get_def double_small)
  have run: "roundtrip (\<lambda>p. ''.'') ?f ?s = Inr ?s1"
    by (simp add: roundtrip_def serialize_def serializedItems_def stringify_array_def
        serializedItem_def Map_values_def all_def storeFromObjects_def new_Store_empty_path
        obj_get_def obj_rest_def obj_spread_def double_small
        rebuild_item_def validate_obj_cases collections_def Map_get_def
        Map_set_def Let_def new_Collection_def insertNoSave_cases item_id_def
        Map_has_def put_collection_def)
  from roundtrip_store [OF h, of "\<lambda>p. ''.''" ?f] obtain s1 where
    "roundtrip (\<lambda>p. ''.'') ?f ?s = Inr s1"
    and names: "collNames s1 = collNames ?s"
    and same: "list_all2 same_collection (Map_values (p_collections ?s)) (Map_values (p_collections s1))"
    by blast
  with run have "s1 = ?s1" by simp
  with names same have "collNames ?s1 = collNames ?s"
    and "list_all2 same_collection (Map_values (p_collections ?s)) (Map_values (p_collections ?s1))"
    by simp_all
  with h run show ?thesis by blast
qed

section \<open>Duplicate tagged records\<close>

text \<open>
  Claim C10 says that \<open>storeFromObjects\<close> fails with the InsertionError of the duplicate
  check on every array that contains two valid tagged records with the same \<open>_id\<close> and
  \<open>_collection\<close>. The loop stops at the first record that fails, in the order of the array:
  when an invalid record stands before the second of the two, the error is that record's
  InvalidItemError.
\<close>

theorem duplicate_after_invalid_counterexample:
  "validateSerializedItem (JObj [(''_id'', JNum (Fin 1)), (''_collection'', JStr ''a'')]) = Inr ()
 \<and> storeFromObjects (\<lambda>p. ''.'') \<lparr>dirs = {''.''}, files = Map.empty\<rparr>
      (JArr [JObj [(''_id'', JStr ''''), (''_collection'', JStr ''x'')],
             JObj [(''_id'', JNum (Fin 1)), (''_collection'', JStr ''a'')],
             JObj [(''_id'', JNum (Fin 1)), (''_collection'', JStr ''a'')]]) ''''
     = Inl (InvalidItemError EmptyId)"
  by (simp add: storeFromObjects_def new_Store_empty_path rebuild_item_def validate_obj_cases
      obj_get_def)

text \<open>
  Claim C10, amended. Let the store for the given path be constructed without error (as it
  always is for the default path, \<open>new_Store_empty_path\<close>), and let the array hold at the
  positions \<open>i < j\<close> two records with the same \<open>_id\<close> and the same \<open>_collection\<close>, every record
  up to position \<open>j\<close> being valid on its own. Then \<open>storeFromObjects\<close> fails with the
  InsertionError of the duplicate check, and returns no store.
\<close>

theorem duplicate_tagged_records_rejected:
  assumes "new_Store dn f storePath = Inr s0"
    and "i < j" and "j < length items"
    and "list_all valid_item (take (Suc j) items)"
    and "get_prop (items ! i) ''_id'' = get_prop (items ! j) ''_id''"
    and "get_prop (items ! i) ''_collection'' = get_prop (items ! j) ''_collection''"
  shows "storeFromObjects dn f (JArr items) storePath = Inl (InsertionError IdAlreadyExists)"
proof -
  let ?pre = "take (Suc j) items"
  have len: "i < length ?pre" "j < length ?pre" using assms(2,3) by simp_all
  have "map tag ?pre ! i = map tag ?pre ! j"
    using assms(2,3,5,6) by (simp add: tag_def)
  moreover have "i \<noteq> j" using assms(2) by simp
  ultimately have "\<not> distinct (map tag ?pre)"
    using len by (metis distinct_conv_nth length_map)
  with assms(4) have "forEach_rebuild s0 ?pre = Inl (InsertionError IdAlreadyExists)"
    by (intro forEach_duplicate) auto
  then have "forEach_rebuild s0 (?pre @ drop (Suc j) items) = Inl (InsertionError IdAlreadyExists)"
    by (simp only: forEach_append sum.case)
  then have "forEach_rebuild s0 items = Inl (InsertionError IdAlreadyExists)" by simp
  with assms(1) show ?thesis by (simp add: storeFromObjects_def)
qed

theorem duplicate_tagged_records_rejected_witness:
  "new_Store (\<lambda>p. ''.'') \<lparr>dirs = {''.''}, files = Map.empty\<rparr> ''''
     = Inr \<lparr>fPath = '''', p_collections = []\<rparr>
 \<and> list_all valid_item
      (take (Suc 2) [JObj [(''_id'', JNum (Fin 1)), (''_collection'', JStr ''users''), (''name'', JStr ''a'')],
                     JObj [(''_id'', JStr ''k''), (''_collection'', JStr ''users'')],
                     JObj [(''_id'', JNum (Fin 1)), (''_collection'', JStr ''users''), (''name'', JStr ''b'')],
                     JNull])
 \<and> storeFromObjects (\<lambda>p. ''.'') \<lparr>dirs = {''.''}, files = Map.empty\<rparr>
      (JArr [JObj [(''_id'', JNum (Fin 1)), (''_collection'', JStr ''users''), (''name'', JStr ''a'')],
             JObj [(''_id'', JStr ''k''), (''_collection'', JStr ''users'')],
             JObj [(''_id'', JNum (Fin 1)), (''_collection'', JStr ''users''), (''name'', JStr ''b'')],
             JNull]) ''''
     = Inl (InsertionError IdAlreadyExists)"
proof -
  let ?items = "[JObj [(''_id'', JNum (Fin 1)), (''_collection'', JStr ''users''), (''name'', JStr ''a'')],
                 JObj [(''_id'', JStr ''k''), (''_collection'', JStr ''users'')],
                 JObj [(''_id'', JNum (Fin 1)), (''_collection'', JStr ''users''), (''name'', JStr ''b'')],
                 JNull]"
  have h1: "new_Store (\<lambda>p. ''.'') \<lparr>dirs = {''.''}, files = Map.empty\<rparr> ''''
              = Inr \<lparr>fPath = '''', p_collections = []\<rparr>"
    by (rule new_Store_empty_path)
  have h2: "(0::nat) < 2" by simp
  have h3: "2 < length ?items" by simp
  have h4: "list_all valid_item (take (Suc 2) ?items)"
    by (simp add: valid_item_def validate_obj_cases obj_get_def)
  have h5: "get_prop (?items ! 0) ''_id'' = get_prop (?items ! 2) ''_id''"
    by (simp add: obj_get_def)
  have h6: "get_prop (?items ! 0) ''_collection'' = get_prop (?items ! 2) ''_collection''"
    by (simp add: obj_get_def)
  from duplicate_tagged_records_rejected [OF h1 h2 h3 h4 h5 h6] h1 h4
  show ?thesis by simp
qed

section \<open>Uniqueness of identifiers\<close>

text \<open>
  Claim C2. Once a call of \<open>insert\<close>, \<open>insertSync\<close> or \<open>_insertNoSave\<close> has put a record with
  identifier \<open>i\<close> into a collection, \<open>get(i)\<close> returns that record; any later call of one of the
  three methods whose record has the identifier \<open>i\<close> fails with the InsertionError of the
  duplicate check and leaves the collection as it was; \<open>get(i)\<close> returns the first record
  after that call and after any further calls. Hence in a collection made by any history of
  calls, from its construction on, no two records have the same \<open>_id\<close>.
\<close>

theorem second_insertion_fails:
  assumes "call_on dn x (c, f) = ((Inr (), c1), f1)"
    and "item_id (record_of x) = i"
    and "item_id (record_of y) = i"
  shows "get c1 i = Some (record_of x)
       \<and> call_on dn y (c1, f1) = ((Inl (InsertionError IdAlreadyExists), c1), f1)
       \<and> get (fst (run_calls dn (c1, f1) (y # ys))) i = Some (record_of x)
       \<and> distinct (map item_id (all (fst (run_calls dn (new_Collection n, f0) zs))))"
proof -
  from assms(1) have ok: "p_insertNoSave c (record_of x) = (Inr (), c1)"
    by (simp add: call_on_eq)
  then have g: "get c1 i = Some (record_of x)"
    using assms(2) insertNoSave_success_get by blast
  from ok have ty: "typeof i = ''string'' \<or> typeof i = ''number''"
    using assms(2) by (auto simp: insertNoSave_cases split: if_splits)
  have "p_insertNoSave c1 (record_of y) = (Inl (InsertionError IdAlreadyExists), c1)"
    using g ty assms(3) by (intro insertNoSave_present_typed[where r = "record_of x"]) auto
  then have second: "call_on dn y (c1, f1) = ((Inl (InsertionError IdAlreadyExists), c1), f1)"
    by (simp add: call_on_eq)
  have later: "get (fst (run_calls dn (c1, f1) (y # ys))) i = Some (record_of x)"
    using g by (rule run_keeps_get)
  have "ids_agree (fst (run_calls dn (new_Collection n, f0) zs))"
    using ids_agree_new by (rule ids_agree_run)
  then have "distinct (map item_id (all (fst (run_calls dn (new_Collection n, f0) zs))))"
    by (rule ids_agree_distinct)
  with g second later show ?thesis by simp
qed

theorem second_insertion_fails_witness:
  "call_on (\<lambda>p. ''.'') (InsertSync [(''name'', JStr ''a'')] (JNum (Fin 1)) ''u'')
      (new_Collection ''users'', \<lparr>dirs = {''.''}, files = Map.empty\<rparr>)
    = ((Inr (), \<lparr>name = ''users'',
                  p_items = [(JNum (Fin 1), [(''_id'', JNum (Fin 1)), (''name'', JStr ''a'')])]\<rparr>),
       \<lparr>dirs = {''.''}, files = Map.empty\<rparr>)
 \<and> item_id (record_of (InsertSync [(''name'', JStr ''a'')] (JNum (Fin 1)) ''u'')) = JNum (Fin 1)
 \<and> item_id (record_of (Insert [(''name'', JStr ''b'')] (JNum (Fin 1)) ''v'')) = JNum (Fin 1)
 \<and> get \<lparr>name = ''users'',
          p_items = [(JNum (Fin 1), [(''_id'', JNum (Fin 1)), (''name'', JStr ''a'')])]\<rparr>
        (JNum (Fin 1))
    = Some [(''_id'', JNum (Fin 1)), (''name'', JStr ''a'')]
 \<and> call_on (\<lambda>p. ''.'') (Insert [(''name'', JStr ''b'')] (JNum (Fin 1)) ''v'')
      (\<lparr>name = ''users'',
         p_items = [(JNum (Fin 1), [(''_id'', JNum (Fin 1)), (''name'', JStr ''a'')])]\<rparr>,
       \<lparr>dirs = {''.''}, files = Map.empty\<rparr>)
    = ((Inl (InsertionError IdAlreadyExists),
        \<lparr>name = ''users'',
          p_items = [(JNum (Fin 1), [(''_id'', JNum (Fin 1)), (''name'', JStr ''a'')])]\<rparr>),
       \<lparr>dirs = {''.''}, files = Map.empty\<rparr>)"
proof -
  let ?dn = "\<lambda>p::string. ''.''"
  let ?f = "\<lparr>dirs = {''.''}, files = Map.empty\<rparr>"
  let ?x = "InsertSync [(''name'', JStr ''a'')] (JNum (Fin 1)) ''u''"
  let ?y = "Insert [(''name'', JStr ''b'')] (JNum (Fin 1)) ''v''"
  let ?c1 = "\<lparr>name = ''users'',
               p_items = [(JNum (Fin 1), [(''_id'', JNum (Fin 1)), (''name'', JStr ''a'')])]\<rparr>"
  have h1: "call_on ?dn ?x (new_Collection ''users'', ?f) = ((Inr (), ?c1), ?f)"
    by (simp add: insertSync_def p_putInMap_def p_validateInsert_def itemHasProp_def obj_get_def
        obj_spread_def Map_has_def Map_set_def new_Collection_def Let_def)
  have r: "record_of ?x = [(''_id'', JNum (Fin 1)), (''name'', JStr ''a'')]"
    by (simp add: new_item_def obj_spread_def)
  have h2: "item_id (record_of ?x) = JNum (Fin 1)"
    by (simp add: item_id_def new_item_def obj_spread_def obj_get_def)
  have h3: "item_id (record_of ?y) = JNum (Fin 1)"
    by (simp add: item_id_def new_item_def obj_spread_def obj_get_def)
  from second_insertion_fails [OF h1 h2 h3, of "[]" "''users''" ?f "[]"] h1 h2 h3 r
  show ?thesis by simp
qed

section \<open>A failed insertion changes nothing\<close>

text \<open>
  Claim C3. When \<open>_insertNoSave\<close>, \<open>insertSync\<close> or \<open>insert\<close> throws, the collection the call
  leaves is the collection it found: the map of records is the same, the offending record
  is not in it and no record has changed (and \<open>insert\<close> has not touched the file system).
\<close>

theorem failed_insertion_unchanged:
  "(p_insertNoSave c item = (Inl e, c1) \<longrightarrow> c1 = c \<and> p_items c1 = p_items c)
 \<and> (insertSync c object ident uuid = (Inl e, c2) \<longrightarrow> c2 = c \<and> p_items c2 = p_items c)
 \<and> (insert dn c object ident uuid f = ((Inl e, c3), f3) \<longrightarrow> c3 = c \<and> p_items c3 = p_items c \<and> f3 = f)"
  by (auto simp: insert_eq insertSync_def p_putInMap_new_item insertNoSave_cases split: if_splits)

theorem failed_insertion_unchanged_witness:
  "p_insertNoSave \<lparr>name = ''users'', p_items = [(JNum (Fin 1), [(''_id'', JNum (Fin 1))])]\<rparr>
       [(''_id'', JNum (Fin 1)), (''name'', JStr ''b'')]
     = (Inl (InsertionError IdAlreadyExists),
        \<lparr>name = ''users'', p_items = [(JNum (Fin 1), [(''_id'', JNum (Fin 1))])]\<rparr>)
 \<and> insertSync \<lparr>name = ''users'', p_items = [(JNum (Fin 1), [(''_id'', JNum (Fin 1))])]\<rparr>
       [(''name'', JStr ''b'')] (JBool True) ''u''
     = (Inl (InsertionError IdNotNumberOrString),
        \<lparr>name = ''users'', p_items = [(JNum (Fin 1), [(''_id'', JNum (Fin 1))])]\<rparr>)"
proof -
  let ?c = "\<lparr>name = ''users'', p_items = [(JNum (Fin 1), [(''_id'', JNum (Fin 1))])]\<rparr>"
  have a: "fst (p_insertNoSave ?c [(''_id'', JNum (Fin 1)), (''name'', JStr ''b'')])
             = Inl (InsertionError IdAlreadyExists)"
    by (simp add: p_insertNoSave_def p_validateInsert_def itemHasProp_def obj_get_def Map_has_def)
  have b: "fst (insertSync ?c [(''name'', JStr ''b'')] (JBool True) ''u'')
             = Inl (InsertionError IdNotNumberOrString)"
    by (simp add: insertSync_def p_putInMap_def p_validateInsert_def itemHasProp_def obj_get_def
        obj_spread_def Map_has_def)
  show ?thesis
    using a b
      failed_insertion_unchanged [of ?c "[(''_id'', JNum (Fin 1)), (''name'', JStr ''b'')]"
        "InsertionError IdAlreadyExists"
        "snd (p_insertNoSave ?c [(''_id'', JNum (Fin 1)), (''name'', JStr ''b'')])"]
      failed_insertion_unchanged [of ?c _ "InsertionError IdNotNumberOrString" _
        "[(''name'', JStr ''b'')]" "JBool True" "''u''"
        "snd (insertSync ?c [(''name'', JStr ''b'')] (JBool True) ''u'')"]
    by (metis prod.collapse)
qed

section \<open>Construction of a store with a path\<close>




section \<open>The empty identifier\<close>

text \<open>
  Claim C5 says that no inserting method ever adds a record whose identifier is the empty
  string. The methods do add it: \<open>insertSync({}, "")\<close>, \<open>insert({}, "")\<close> and
  \<open>_insertNoSave({_id: ""})\<close> on a new collection all succeed and store the record under
  the key \<open>""\<close>, since \<open>_validateInsert\<close> looks at the type of the identifier only. The
  validation of the loading path rejects the very record \<open>serialize\<close> writes for it.
\<close>

theorem empty_id_is_inserted:
  "insertSync (new_Collection ''users'') [] (JStr '''') uuid
     = (Inr (), \<lparr>name = ''users'', p_items = [(JStr '''', [(''_id'', JStr '''')])]\<rparr>)
 \<and> insert dn (new_Collection ''users'') [] (JStr '''') uuid f
     = ((Inr (), \<lparr>name = ''users'', p_items = [(JStr '''', [(''_id'', JStr '''')])]\<rparr>), f)
 \<and> p_insertNoSave (new_Collection ''users'') [(''_id'', JStr '''')]
     = (Inr (), \<lparr>name = ''users'', p_items = [(JStr '''', [(''_id'', JStr '''')])]\<rparr>)
 \<and> validateSerializedItem (JObj (serializedItem ''users'' [(''_id'', JStr '''')]))
     = Inl (InvalidItemError EmptyId)"
  by (simp add: insert_eq insertSync_def p_putInMap_new_item insertNoSave_cases new_item_def
      obj_spread_def item_id_def obj_get_def Map_has_def Map_set_def new_Collection_def
      validateSerializedItem_def serializedItem_def obj_rest_def)

section \<open>Validation of tagged records\<close>

text \<open>
  Claim C6. For a record (an object), \<open>validateSerializedItem\<close> fails with InvalidItemError
  if and only if \<open>_id\<close> is the empty string, or \<open>_collection\<close> is the empty string, or \<open>_id\<close>
  is absent or neither a string nor a number, or \<open>_collection\<close> is absent or not a string;
  it fails in no other way; and \<open>storeFromObjects([{"_id":"","_collection":"x"}])\<close> fails
  with InvalidItemError.
\<close>

theorem validateSerializedItem_fails_iff:
  "((\<exists>r. validateSerializedItem (JObj props) = Inl (InvalidItemError r))
      \<longleftrightarrow> (obj_get props ''_id'' = JStr ''''
           \<or> obj_get props ''_collection'' = JStr ''''
           \<or> (typeof (obj_get props ''_id'') \<noteq> ''string'' \<and> typeof (obj_get props ''_id'') \<noteq> ''number'')
           \<or> typeof (obj_get props ''_collection'') \<noteq> ''string''))
 \<and> (validateSerializedItem (JObj props) = Inr ()
      \<or> (\<exists>r. validateSerializedItem (JObj props) = Inl (InvalidItemError r)))
 \<and> storeFromObjects dn f (JArr [JObj [(''_id'', JStr ''''), (''_collection'', JStr ''x'')]]) ''''
      = Inl (InvalidItemError EmptyId)"
proof -
  have "storeFromObjects dn f (JArr [JObj [(''_id'', JStr ''''), (''_collection'', JStr ''x'')]]) ''''
          = Inl (InvalidItemError EmptyId)"
    by (simp add: storeFromObjects_def new_Store_def initStore_def rebuild_item_def
        validate_obj_cases obj_get_def)
  then show ?thesis by (auto simp: validate_obj_cases)
qed

section \<open>Persisting the store\<close>

text \<open>
  Claim C7. For a store whose path is the empty string, \<open>persist()\<close> returns at once and
  leaves the file system as it is, the constructor gives the empty store whatever the file
  system holds, \<open>storeFromObjects\<close> gives the same result on every file system, and
  \<open>insert\<close> on a collection leaves the file system as it is. For a store with a path,
  \<open>persist()\<close> called on the store writes the serialization of the store as the whole
  content of the file, whatever the file held: directly when the parent directory exists,
  and after creating the parent directory when it is missing and its own parent exists.
  The directory is not created recursively: when the parent's parent is missing too, the
  call fails and changes nothing. The serialization is the text of the flat array of the
  tagged records of every collection, in the order of the registry.
\<close>

theorem persist_effect:
  "(fPath s = ''''
      \<longrightarrow> persist dn (ThisStore s) f = (Inr (), f)
        \<and> new_Store dn f (fPath s) = Inr \<lparr>fPath = '''', p_collections = []\<rparr>
        \<and> storeFromObjects dn f storedData (fPath s) = storeFromObjects dn1 f1 storedData (fPath s)
        \<and> snd (insert dn c object ident uuid f) = f)
 \<and> (fPath s \<noteq> '''' \<and> fPath s \<notin> dirs f \<and> dn (fPath s) \<in> dirs f
      \<longrightarrow> persist dn (ThisStore s) f
          = (Inr (), f\<lparr>files := (files f)(fPath s \<mapsto> serialize s)\<rparr>))
 \<and> (fPath s \<noteq> '''' \<and> fPath s \<notin> dirs f \<and> dn (fPath s) \<noteq> fPath s
      \<and> \<not> existsSync f (dn (fPath s)) \<and> dn (dn (fPath s)) \<in> dirs f
      \<longrightarrow> persist dn (ThisStore s) f
          = (Inr (), f\<lparr>dirs := Set.insert (dn (fPath s)) (dirs f),
                        files := (files f)(fPath s \<mapsto> serialize s)\<rparr>))
 \<and> (fPath s \<noteq> '''' \<and> \<not> existsSync f (dn (fPath s)) \<and> dn (dn (fPath s)) \<notin> dirs f
      \<longrightarrow> persist dn (ThisStore s) f = (Inl (IOError ENOENT), f))
 \<and> serialize s
      = stringify_array (map JObj (concat (map (\<lambda>collection.
            map (serializedItem (name collection)) (all collection)) (Map_values (p_collections s)))))"
proof -
  have a: "fPath s = '''' \<longrightarrow> persist dn (ThisStore s) f = (Inr (), f)
        \<and> new_Store dn f (fPath s) = Inr \<lparr>fPath = '''', p_collections = []\<rparr>
        \<and> storeFromObjects dn f storedData (fPath s) = storeFromObjects dn1 f1 storedData (fPath s)
        \<and> snd (insert dn c object ident uuid f) = f"
    by (simp add: persist_def new_Store_empty_path storeFromObjects_def insert_fs)
  have b: "fPath s \<noteq> '''' \<and> fPath s \<notin> dirs f \<and> dn (fPath s) \<in> dirs f
      \<longrightarrow> persist dn (ThisStore s) f
          = (Inr (), f\<lparr>files := (files f)(fPath s \<mapsto> serialize s)\<rparr>)"
    by (simp add: persist_def existsSync_def writeFile_def Let_def)
  have c: "fPath s \<noteq> '''' \<and> fPath s \<notin> dirs f \<and> dn (fPath s) \<noteq> fPath s
      \<and> \<not> existsSync f (dn (fPath s)) \<and> dn (dn (fPath s)) \<in> dirs f
      \<longrightarrow> persist dn (ThisStore s) f
          = (Inr (), f\<lparr>dirs := Set.insert (dn (fPath s)) (dirs f),
                        files := (files f)(fPath s \<mapsto> serialize s)\<rparr>)"
    by (auto simp: persist_def mkdirSync_def writeFile_def Let_def)
  have d: "fPath s \<noteq> '''' \<and> \<not> existsSync f (dn (fPath s)) \<and> dn (dn (fPath s)) \<notin> dirs f
      \<longrightarrow> persist dn (ThisStore s) f = (Inl (IOError ENOENT), f)"
    by (simp add: persist_def mkdirSync_def Let_def)
  have e: "serialize s
      = stringify_array (map JObj (concat (map (\<lambda>collection.
            map (serializedItem (name collection)) (all collection)) (Map_values (p_collections s)))))"
    by (simp add: serialize_def serializedItems_concat)
  from a b c d e show ?thesis by blast
qed

theorem persist_effect_witness:
  "persist (\<lambda>p. ''.'')
      (ThisStore \<lparr>fPath = '''', p_collections = [(''users'', \<lparr>name = ''users'',
          p_items = [(JNum (Fin 1), [(''_id'', JNum (Fin 1)), (''name'', JStr ''a'')])]\<rparr>)]\<rparr>)
      \<lparr>dirs = {''.''}, files = Map.empty\<rparr>
     = (Inr (), \<lparr>dirs = {''.''}, files = Map.empty\<rparr>)
 \<and> persist (\<lambda>p. if p = ''db/data.json'' then ''db'' else ''.'')
      (ThisStore \<lparr>fPath = ''db/data.json'', p_collections = [(''users'', \<lparr>name = ''users'',
          p_items = [(JNum (Fin 1), [(''_id'', JNum (Fin 1)), (''name'', JStr ''a'')])]\<rparr>)]\<rparr>)
      \<lparr>dirs = {''.'', ''db''}, files = [''db/data.json'' \<mapsto> NotJson ''old'']\<rparr>
     = (Inr (), \<lparr>dirs = {''.'', ''db''},
                 files = [''db/data.json'' \<mapsto>
                   Json (JsArr [JsObj [(''_id'', JsNum 1), (''_collection'', JsStr ''users''),
                                      (''name'', JsStr ''a'')]])]\<rparr>)
 \<and> persist (\<lambda>p. if p = ''db/data.json'' then ''db'' else ''.'')
      (ThisStore \<lparr>fPath = ''db/data.json'', p_collections = [(''users'', \<lparr>name = ''users'',
          p_items = [(JNum (Fin 1), [(''_id'', JNum (Fin 1)), (''name'', JStr ''a'')])]\<rparr>)]\<rparr>)
      \<lparr>dirs = {''.''}, files = Map.empty\<rparr>
     = (Inr (), \<lparr>dirs = {''db'', ''.''},
                 files = [''db/data.json'' \<mapsto>
                   Json (JsArr [JsObj [(''_id'', JsNum 1), (''_collection'', JsStr ''users''),
                                      (''name'', JsStr ''a'')]])]\<rparr>)
 \<and> persist (\<lambda>p. if p = ''a/b/data.json'' then ''a/b'' else if p = ''a/b'' then ''a'' else ''.'')
      (ThisStore \<lparr>fPath = ''a/b/data.json'', p_collections = []\<rparr>)
      \<lparr>dirs = {''.''}, files = Map.empty\<rparr>
     = (Inl (IOError ENOENT), \<lparr>dirs = {''.''}, files = Map.empty\<rparr>)"
proof -
  let ?c = "\<lparr>name = ''users'',
          p_items = [(JNum (Fin 1), [(''_id'', JNum (Fin 1)), (''name'', JStr ''a'')])]\<rparr>"
  let ?s0 = "\<lparr>fPath = '''', p_collections = [(''users'', ?c)]\<rparr>"
  let ?s1 = "\<lparr>fPath = ''db/data.json'', p_collections = [(''users'', ?c)]\<rparr>"
  let ?s2 = "\<lparr>fPath = ''a/b/data.json'', p_collections = []\<rparr>"
  let ?dn1 = "\<lambda>p. if p = ''db/data.json'' then ''db'' else ''.''"
  let ?dn2 = "\<lambda>p. if p = ''a/b/data.json'' then ''a/b'' else if p = ''a/b'' then ''a'' else ''.''"
  let ?f0 = "\<lparr>dirs = {''.''}, files = Map.empty\<rparr>"
  let ?f1 = "\<lparr>dirs = {''.'', ''db''}, files = [''db/data.json'' \<mapsto> NotJson ''old'']\<rparr>"
  have ser: "serialize ?s1 = Json (JsArr [JsObj [(''_id'', JsNum 1), (''_collection'', JsStr ''users''),
                                      (''name'', JsStr ''a'')]])"
    by (simp add: serialize_def serializedItems_def serializedItem_def stringify_array_def
        Map_values_def all_def obj_get_def obj_rest_def obj_spread_def)
  have w0: "persist (\<lambda>p. ''.'') (ThisStore ?s0) ?f0 = (Inr (), ?f0)"
    using persist_effect [of ?s0 "\<lambda>p. ''.''" ?f0] by simp
  have w1: "persist ?dn1 (ThisStore ?s1) ?f1
              = (Inr (), ?f1\<lparr>files := (files ?f1)(fPath ?s1 \<mapsto> serialize ?s1)\<rparr>)"
    using persist_effect [of ?s1 ?dn1 ?f1] by simp
  have w2: "persist ?dn1 (ThisStore ?s1) ?f0
              = (Inr (), ?f0\<lparr>dirs := Set.insert (?dn1 (fPath ?s1)) (dirs ?f0),
                             files := (files ?f0)(fPath ?s1 \<mapsto> serialize ?s1)\<rparr>)"
    using persist_effect [of ?s1 ?dn1 ?f0] by (simp add: existsSync_def)
  have w3: "persist ?dn2 (ThisStore ?s2) ?f0 = (Inl (IOError ENOENT), ?f0)"
    using persist_effect [of ?s2 ?dn2 ?f0] by (simp add: existsSync_def)
  from w0 w1 w2 w3 show ?thesis by (simp add: ser)
qed

section \<open>The persisted insertion\<close>

text \<open>
  Claim C8 says that \<open>insert\<close> does what \<open>insertSync\<close> does and then completes only when
  the store's persistence has settled, or was skipped because no path is configured. The
  first half holds. The second does not: the hook is \<open>persist\<close> taken off the store without
  its receiver, and \<open>this._onUpdate()\<close> runs it with the collection as \<open>this\<close>, whose
  \<open>fPath\<close> is \<open>undefined\<close>; its first guard returns. So \<open>insert\<close> leaves the file system as it
  found it, for every store, with a path or without. The store of path \<open>db/data.json\<close> below
  is as its constructor makes it; \<open>insert\<close> on its collection \<open>users\<close> writes nothing, where
  \<open>persist()\<close> called on the store itself makes the directory and writes the file.
\<close>

theorem insert_never_persists:
  "insert dn c object ident uuid f = (insertSync c object ident uuid, f)
 \<and> new_Store (\<lambda>p. if p = ''db/data.json'' then ''db'' else ''.'')
      \<lparr>dirs = {''.''}, files = Map.empty\<rparr> ''db/data.json''
     = Inr \<lparr>fPath = ''db/data.json'', p_collections = []\<rparr>
 \<and> collections \<lparr>fPath = ''db/data.json'', p_collections = []\<rparr> ''users''
     = (new_Collection ''users'',
        \<lparr>fPath = ''db/data.json'', p_collections = [(''users'', new_Collection ''users'')]\<rparr>)
 \<and> insert (\<lambda>p. if p = ''db/data.json'' then ''db'' else ''.'')
      (new_Collection ''users'') [(''name'', JStr ''a'')] (JNum (Fin 1)) uuid
      \<lparr>dirs = {''.''}, files = Map.empty\<rparr>
     = ((Inr (), \<lparr>name = ''users'',
                   p_items = [(JNum (Fin 1), [(''_id'', JNum (Fin 1)), (''name'', JStr ''a'')])]\<rparr>),
        \<lparr>dirs = {''.''}, files = Map.empty\<rparr>)
 \<and> persist (\<lambda>p. if p = ''db/data.json'' then ''db'' else ''.'')
      (ThisStore \<lparr>fPath = ''db/data.json'',
                  p_collections = [(''users'', \<lparr>name = ''users'',
                     p_items = [(JNum (Fin 1), [(''_id'', JNum (Fin 1)), (''name'', JStr ''a'')])]\<rparr>)]\<rparr>)
      \<lparr>dirs = {''.''}, files = Map.empty\<rparr>
     = (Inr (),
        \<lparr>dirs = {''db'', ''.''},
         files = [''db/data.json'' \<mapsto>
           Json (JsArr [JsObj [(''_id'', JsNum 1), (''_collection'', JsStr ''users''),
                              (''name'', JsStr ''a'')]])]\<rparr>)"
proof -
  let ?dn = "\<lambda>p. if p = ''db/data.json'' then ''db'' else ''.''"
  let ?f = "\<lparr>dirs = {''.''}, files = Map.empty\<rparr>"
  let ?s = "\<lparr>fPath = ''db/data.json'',
                  p_collections = [(''users'', \<lparr>name = ''users'',
                     p_items = [(JNum (Fin 1), [(''_id'', JNum (Fin 1)), (''name'', JStr ''a'')])]\<rparr>)]\<rparr>"
  have a: "insert dn c object ident uuid f = (insertSync c object ident uuid, f)"
    by (simp add: insert_eq insertSync_def p_putInMap_new_item)
  have b: "new_Store ?dn ?f ''db/data.json'' = Inr \<lparr>fPath = ''db/data.json'', p_collections = []\<rparr>"
    by (simp add: new_Store_def initStore_def existsSync_def)
  have c: "collections \<lparr>fPath = ''db/data.json'', p_collections = []\<rparr> ''users''
     = (new_Collection ''users'',
        \<lparr>fPath = ''db/data.json'', p_collections = [(''users'', new_Collection ''users'')]\<rparr>)"
    by (simp add: collections_def Map_get_def Map_set_def Let_def)
  have d: "insert ?dn (new_Collection ''users'') [(''name'', JStr ''a'')] (JNum (Fin 1)) uuid ?f
     = ((Inr (), \<lparr>name = ''users'',
                   p_items = [(JNum (Fin 1), [(''_id'', JNum (Fin 1)), (''name'', JStr ''a'')])]\<rparr>), ?f)"
    by (simp add: insert_eq insertNoSave_cases new_item_def obj_spread_def item_id_def obj_get_def
        Map_has_def Map_set_def new_Collection_def)
  have ser: "serialize ?s = Json (JsArr [JsObj [(''_id'', JsNum 1), (''_collection'', JsStr ''users''),
                              (''name'', JsStr ''a'')]])"
    by (simp add: serialize_def serializedItems_def serializedItem_def stringify_array_def
        Map_values_def all_def obj_get_def obj_rest_def obj_spread_def)
  have e: "persist ?dn (ThisStore ?s) ?f
     = (Inr (), \<lparr>dirs = {''db'', ''.''},
         files = [''db/data.json'' \<mapsto>
           Json (JsArr [JsObj [(''_id'', JsNum 1), (''_collection'', JsStr ''users''),
                              (''name'', JsStr ''a'')]])]\<rparr>)"
    by (simp add: persist_def ser existsSync_def mkdirSync_def writeFile_def)
  from a b c d e show ?thesis by simp
qed

section \<open>Identifiers of the wrong type\<close>

text \<open>
  Claim C9 says that an insertion with an explicitly supplied identifier that is neither a
  string nor a number fails. \<open>_putInMap\<close> builds the record as \<open>{ _id: id, ...object }\<close>,
  so an \<open>_id\<close> among the fields replaces the supplied identifier:
  \<open>insertSync({_id: "x"}, true)\<close> succeeds and stores the record under \<open>"x"\<close>.
\<close>

theorem explicit_id_overridden_counterexample:
  "typeof (JBool True) \<noteq> ''string'' \<and> typeof (JBool True) \<noteq> ''number''
 \<and> insertSync (new_Collection ''users'') [(''_id'', JStr ''x'')] (JBool True) ''u''
     = (Inr (), \<lparr>name = ''users'', p_items = [(JStr ''x'', [(''_id'', JStr ''x'')])]\<rparr>)"
  by (simp add: insertSync_def p_putInMap_def p_validateInsert_def itemHasProp_def obj_get_def
      obj_spread_def Map_has_def Map_set_def new_Collection_def Let_def)

text \<open>
  Claim C9, amended. When the fields have no \<open>_id\<close> of their own (as the parameter type
  \<open>Omit<Schema, "_id">\<close> says) and the supplied identifier is neither a string nor a number,
  \<open>insertSync\<close> and \<open>insert\<close> fail with the InsertionError of the type check and the
  collection is unchanged. More generally the three inserting methods fail so whenever the
  \<open>_id\<close> of the record they are to store is neither a string nor a number.
\<close>

theorem wrong_typed_id_rejected:
  "(map_of object ''_id'' = None \<and> ident \<noteq> JUndefined
      \<and> typeof ident \<noteq> ''string'' \<and> typeof ident \<noteq> ''number''
    \<longrightarrow> insertSync c object ident uuid = (Inl (InsertionError IdNotNumberOrString), c)
      \<and> insert dn c object ident uuid f = ((Inl (InsertionError IdNotNumberOrString), c), f))
 \<and> (typeof (item_id (new_item object ident uuid)) \<noteq> ''string''
      \<and> typeof (item_id (new_item object ident uuid)) \<noteq> ''number''
    \<longrightarrow> insertSync c object ident uuid = (Inl (InsertionError IdNotNumberOrString), c)
      \<and> insert dn c object ident uuid f = ((Inl (InsertionError IdNotNumberOrString), c), f))
 \<and> (typeof (item_id item) \<noteq> ''string'' \<and> typeof (item_id item) \<noteq> ''number''
    \<longrightarrow> p_insertNoSave c item = (Inl (InsertionError IdNotNumberOrString), c))"
  by (simp add: insert_eq insertSync_def p_putInMap_new_item insertNoSave_cases item_id_new_item)

theorem wrong_typed_id_rejected_witness:
  "insertSync (new_Collection ''users'') [(''name'', JStr ''a'')] (JBool True) ''u''
     = (Inl (InsertionError IdNotNumberOrString), new_Collection ''users'')
 \<and> insert (\<lambda>p. ''.'') (new_Collection ''users'') [(''name'', JStr ''a'')] (JArr []) ''u''
       \<lparr>dirs = {''.''}, files = Map.empty\<rparr>
     = ((Inl (InsertionError IdNotNumberOrString), new_Collection ''users''),
        \<lparr>dirs = {''.''}, files = Map.empty\<rparr>)
 \<and> p_insertNoSave (new_Collection ''users'') [(''_id'', JObj []), (''name'', JStr ''a'')]
     = (Inl (InsertionError IdNotNumberOrString), new_Collection ''users'')"
  using wrong_typed_id_rejected [of "[(''name'', JStr ''a'')]" "JBool True" "new_Collection ''users''"
      "''u''" _ _ "[(''_id'', JObj []), (''name'', JStr ''a'')]"]
    wrong_typed_id_rejected [of "[(''name'', JStr ''a'')]" "JArr []" "new_Collection ''users''"
      "''u''" "\<lambda>p. ''.''" "\<lparr>dirs = {''.''}, files = Map.empty\<rparr>" "[]"]
  by (simp add: item_id_def obj_get_def)

end
